theory Spec2Isabelle
  imports Complex_Main
begin

section \<open>Timing fixes for audioBlockFormats (ear/fileio/adm/timing\_fixes.py)\<close>

text \<open>
  The module repairs the timing metadata of an ADM document in three passes:
  \<^item> \<open>fix_blockFormat_durations\<close> makes the end of each block meet the start of the next;
  \<^item> \<open>fix_blockFormat_interpolationLengths\<close> shrinks interpolation lengths to the duration;
  \<^item> \<open>fix_blockFormat_times_for_audioObjects\<close> clamps blocks into the audioObjects that
    select them.
  Times are Python \<open>Fraction\<close>s, hence \<open>rat\<close> here: arithmetic and comparisons are exact.
  The Python mutates the blocks in place, emits warnings and may raise; the model passes
  the state explicitly, collects the warnings in a list, and returns a raised exception
  as a value together with the state and the warnings at the moment of the raise.
\<close>

subsection \<open>Data model\<close>

record JumpPosition =
  flag :: bool
  interpolationLength :: "rat option"

text \<open>
  Only \<open>AudioBlockFormatObjects\<close> carries a \<open>jumpPosition\<close>; every other subclass of
  \<open>BlockFormat\<close> (DirectSpeakers, HOA, Matrix, Binaural) is \<open>AudioBlockFormatOther\<close>.
\<close>

datatype BlockFormatClass =
    AudioBlockFormatObjects JumpPosition
  | AudioBlockFormatOther

record BlockFormat =
  bf_id :: string
  rtime :: "rat option"
  duration :: "rat option"
  cls :: BlockFormatClass

record AudioObject =
  obj_id :: string
  obj_start :: "rat option"
  obj_duration :: "rat option"

text \<open>
  A channel format owns its blocks: a block belongs to one channel format and occurs
  once in its list, so the list holds the blocks by value. The channel formats
  themselves are shared between audioObjects; pass 3 reaches them through the
  document (see \<open>clamp_channelFormat\<close>).
\<close>

record ChannelFormat =
  cf_id :: string
  audioBlockFormats :: "BlockFormat list"

record ADM =
  audioChannelFormats :: "ChannelFormat list"
  audioObjects :: "AudioObject list"

text \<open>
  The warnings, one constructor per format string, with the format arguments that
  the message prints.
\<close>

datatype diagnostic =
    DurationChanged string string rat rat
      \<comment> \<open>direction (expanded or contracted), block id, old, new\<close>
  | ContractedInterpolationLength string rat rat
      \<comment> \<open>block id, old, new\<close>
  | ReducedInterpolationLength string string
      \<comment> \<open>block id, object id\<close>
  | DelayedRtime string string rat
      \<comment> \<open>block id, object id, shift\<close>
  | AdvancingEnd string string rat
      \<comment> \<open>block id, object id, shift\<close>
  | AdvancingEndInterpolationLength string string
      \<comment> \<open>block id, object id\<close>

text \<open>
  The exceptions: the three \<open>ValueError\<close>s of the clamps (block id, object id, shift),
  and the \<open>TypeError\<close> that Python raises when an unset (\<open>None\<close>) time is compared or
  used in arithmetic.
\<close>

datatype error =
    DelayAfterBlockEnd string string rat
  | DelayAfterInterpolationEnd string string rat
  | AdvanceBeforeBlockStart string string rat
  | TypeError

fun is_ValueError :: "error \<Rightarrow> bool" where
  "is_ValueError TypeError = False"
| "is_ValueError _ = True"

text \<open>
  The outcome of a call that mutates a state of type \<open>'s\<close>: it returns (\<open>Done\<close>) or
  raises (\<open>Raised\<close>); both carry the state as the call left it and the warnings emitted.
\<close>

datatype 's outcome =
    Done 's "diagnostic list"
  | Raised error 's "diagnostic list"

fun warned :: "diagnostic list \<Rightarrow> 's outcome \<Rightarrow> 's outcome" where
  "warned ds (Done s ds') = Done s (ds @ ds')"
| "warned ds (Raised e s ds') = Raised e s (ds @ ds')"

fun and_then :: "'s outcome \<Rightarrow> ('s \<Rightarrow> 's outcome) \<Rightarrow> 's outcome" where
  "and_then (Done s ds) f = warned ds (f s)"
| "and_then (Raised e s ds) f = Raised e s ds"

fun lift_outcome :: "('a \<Rightarrow> 's) \<Rightarrow> 'a outcome \<Rightarrow> 's outcome" where
  "lift_outcome put (Done a ds) = Done (put a) ds"
| "lift_outcome put (Raised e a ds) = Raised e (put a) ds"

text \<open>A \<open>for\<close> loop whose body mutates the state and may raise.\<close>

fun for_each :: "'a list \<Rightarrow> ('a \<Rightarrow> 's \<Rightarrow> 's outcome) \<Rightarrow> 's \<Rightarrow> 's outcome" where
  "for_each [] body s = Done s []"
| "for_each (x # xs) body s = and_then (body x s) (for_each xs body)"

subsection \<open>The interpolation predicate\<close>

definition has_interpolationLength :: "BlockFormat \<Rightarrow> bool" where
  "has_interpolationLength blockFormat =
     (case cls blockFormat of
        AudioBlockFormatObjects jp \<Rightarrow> flag jp \<and> interpolationLength jp \<noteq> None
      | AudioBlockFormatOther \<Rightarrow> False)"

text \<open>
  The source reads \<open>blockFormat.jumpPosition.interpolationLength\<close> only behind
  \<open>_has_interpolationLength(blockFormat) and ...\<close>. \<open>defined_interpolationLength\<close> is
  that guarded read: the value where the predicate holds, \<open>None\<close> where it does not.
\<close>

definition defined_interpolationLength :: "BlockFormat \<Rightarrow> rat option" where
  "defined_interpolationLength blockFormat =
     (case cls blockFormat of
        AudioBlockFormatObjects jp \<Rightarrow> (if flag jp then interpolationLength jp else None)
      | AudioBlockFormatOther \<Rightarrow> None)"

text \<open>
  The assignment \<open>blockFormat.jumpPosition.interpolationLength = v\<close>, which the source
  also reaches only where the predicate holds.
\<close>

definition set_interpolationLength :: "rat \<Rightarrow> BlockFormat \<Rightarrow> BlockFormat" where
  "set_interpolationLength v blockFormat =
     (case cls blockFormat of
        AudioBlockFormatObjects jp \<Rightarrow>
          blockFormat\<lparr>cls := AudioBlockFormatObjects (jp\<lparr>interpolationLength := Some v\<rparr>)\<rparr>
      | AudioBlockFormatOther \<Rightarrow> blockFormat)"

subsection \<open>Pass 1: durations\<close>

text \<open>
  The body of the loop over \<open>zip(blockFormat[:-1], blockFormat[1:])\<close>. It writes to
  \<open>bf_a\<close> only, so it returns the new \<open>bf_a\<close> and the warnings.
\<close>

definition fix_duration_pair :: "BlockFormat \<Rightarrow> BlockFormat \<Rightarrow> BlockFormat \<times> diagnostic list" where
  "fix_duration_pair bf_a bf_b =
     (case (rtime bf_a, duration bf_a, rtime bf_b, duration bf_b) of
        (Some rtime_a, Some old_duration, Some rtime_b, Some _) \<Rightarrow>
          (let new_duration = rtime_b - rtime_a in
           if old_duration \<noteq> new_duration then
             (let w = DurationChanged
                        (if new_duration > old_duration then ''expanded'' else ''contracted'')
                        (bf_id bf_a) old_duration new_duration;
                  bf_a1 = bf_a\<lparr>duration := Some new_duration\<rparr>
              in if (case defined_interpolationLength bf_a1 of
                       Some il \<Rightarrow> old_duration \<ge> il \<and> new_duration < il
                     | None \<Rightarrow> False)
                 then (set_interpolationLength new_duration bf_a1, [w])
                 else (bf_a1, [w]))
           else (bf_a, []))
      | _ \<Rightarrow> (bf_a, []))"

text \<open>
  The loop over the consecutive pairs of one channel. The pair \<open>(a, b)\<close> changes only
  \<open>a\<close>, so the next pair \<open>(b, c)\<close> reads \<open>b\<close> as it was; the last block is in no pair as
  first component.
\<close>

fun fix_durations_blocks :: "BlockFormat list \<Rightarrow> BlockFormat list \<times> diagnostic list" where
  "fix_durations_blocks (bf_a # bf_b # rest) =
     (let (bf_a', ws) = fix_duration_pair bf_a bf_b;
          (rest', ws') = fix_durations_blocks (bf_b # rest)
      in (bf_a' # rest', ws @ ws'))"
| "fix_durations_blocks blockFormats = (blockFormats, [])"

text \<open>A loop over the channel formats whose body cannot raise.\<close>

fun for_each_channelFormat ::
  "(BlockFormat list \<Rightarrow> BlockFormat list \<times> diagnostic list) \<Rightarrow> ChannelFormat list
     \<Rightarrow> ChannelFormat list \<times> diagnostic list" where
  "for_each_channelFormat body [] = ([], [])"
| "for_each_channelFormat body (channelFormat # rest) =
     (let (blockFormats', ws) = body (audioBlockFormats channelFormat);
          (rest', ws') = for_each_channelFormat body rest
      in (channelFormat\<lparr>audioBlockFormats := blockFormats'\<rparr> # rest', ws @ ws'))"

definition fix_blockFormat_durations :: "ADM \<Rightarrow> ADM \<times> diagnostic list" where
  "fix_blockFormat_durations adm =
     (let (channelFormats', ws) =
            for_each_channelFormat fix_durations_blocks (audioChannelFormats adm)
      in (adm\<lparr>audioChannelFormats := channelFormats'\<rparr>, ws))"

subsection \<open>Pass 2: interpolation lengths\<close>

definition fix_interpolationLength_block :: "BlockFormat \<Rightarrow> BlockFormat \<times> diagnostic list" where
  "fix_interpolationLength_block blockFormat =
     (case (rtime blockFormat, duration blockFormat, defined_interpolationLength blockFormat) of
        (Some _, Some d, Some il) \<Rightarrow>
          if il > d
          then (set_interpolationLength d blockFormat,
                [ContractedInterpolationLength (bf_id blockFormat) il d])
          else (blockFormat, [])
      | _ \<Rightarrow> (blockFormat, []))"

fun fix_interpolationLengths_blocks ::
  "BlockFormat list \<Rightarrow> BlockFormat list \<times> diagnostic list" where
  "fix_interpolationLengths_blocks [] = ([], [])"
| "fix_interpolationLengths_blocks (blockFormat # rest) =
     (let (blockFormat', ws) = fix_interpolationLength_block blockFormat;
          (rest', ws') = fix_interpolationLengths_blocks rest
      in (blockFormat' # rest', ws @ ws'))"

definition fix_blockFormat_interpolationLengths :: "ADM \<Rightarrow> ADM \<times> diagnostic list" where
  "fix_blockFormat_interpolationLengths adm =
     (let (channelFormats', ws) =
            for_each_channelFormat fix_interpolationLengths_blocks (audioChannelFormats adm)
      in (adm\<lparr>audioChannelFormats := channelFormats'\<rparr>, ws))"

subsection \<open>Pass 3: clamping blocks into audioObjects\<close>

definition clamp_blockFormat_interpolationLength ::
  "BlockFormat \<Rightarrow> AudioObject \<Rightarrow> BlockFormat outcome" where
  "clamp_blockFormat_interpolationLength blockFormat audioObject =
     (case defined_interpolationLength blockFormat of
        None \<Rightarrow> Done blockFormat []
      | Some il \<Rightarrow>
          (case obj_duration audioObject of
             None \<Rightarrow> Raised TypeError blockFormat []
           | Some obj_dur \<Rightarrow>
               if il > obj_dur
               then Done (set_interpolationLength obj_dur blockFormat)
                         [ReducedInterpolationLength (bf_id blockFormat) (obj_id audioObject)]
               else Done blockFormat []))"

definition clamp_blockFormat_start :: "BlockFormat \<Rightarrow> AudioObject \<Rightarrow> BlockFormat outcome" where
  "clamp_blockFormat_start blockFormat audioObject =
     (case (rtime blockFormat, obj_start audioObject) of
        (Some r, Some obj_st) \<Rightarrow>
          if r < obj_st then
            (let shift = obj_st - r in
             case duration blockFormat of
               None \<Rightarrow> Raised TypeError blockFormat []
             | Some d \<Rightarrow>
                 if shift \<ge> d then
                   Raised (DelayAfterBlockEnd (bf_id blockFormat) (obj_id audioObject) shift)
                          blockFormat []
                 else if (case defined_interpolationLength blockFormat of
                            Some il \<Rightarrow> il \<le> shift | None \<Rightarrow> False) then
                   Raised (DelayAfterInterpolationEnd (bf_id blockFormat) (obj_id audioObject) shift)
                          blockFormat []
                 else
                   (let bf1 = blockFormat\<lparr>rtime := Some (r + shift), duration := Some (d - shift)\<rparr>
                    in Done (case defined_interpolationLength bf1 of
                               Some il \<Rightarrow> set_interpolationLength (il - shift) bf1
                             | None \<Rightarrow> bf1)
                            [DelayedRtime (bf_id blockFormat) (obj_id audioObject) shift]))
          else Done blockFormat []
      | _ \<Rightarrow> Raised TypeError blockFormat [])"

definition clamp_blockFormat_end :: "BlockFormat \<Rightarrow> AudioObject \<Rightarrow> BlockFormat outcome" where
  "clamp_blockFormat_end blockFormat audioObject =
     (case (rtime blockFormat, duration blockFormat, obj_start audioObject, obj_duration audioObject) of
        (Some r, Some d, Some obj_st, Some obj_dur) \<Rightarrow>
          (let block_end = r + d; object_end = obj_st + obj_dur in
           if block_end > object_end then
             (let shift = block_end - object_end in
              if shift \<ge> d then
                Raised (AdvanceBeforeBlockStart (bf_id blockFormat) (obj_id audioObject) shift)
                       blockFormat []
              else
                (let w = AdvancingEnd (bf_id blockFormat) (obj_id audioObject) shift;
                     bf1 = blockFormat\<lparr>duration := Some (d - shift)\<rparr>
                 in if (case defined_interpolationLength bf1 of
                          Some il \<Rightarrow> il > d - shift | None \<Rightarrow> False)
                    then Done (set_interpolationLength (d - shift) bf1)
                              [w, AdvancingEndInterpolationLength (bf_id blockFormat)
                                    (obj_id audioObject)]
                    else Done bf1 [w]))
           else Done blockFormat [])
      | _ \<Rightarrow> Raised TypeError blockFormat [])"

text \<open>
  The source's \<open>elif blockFormat.rtime is not None or blockFormat.duration is not None\<close>
  is reached only when both are set, so it always holds there and the final
  \<open>assert False\<close> is unreachable.
\<close>

definition clamp_blockFormat_times :: "BlockFormat \<Rightarrow> AudioObject \<Rightarrow> BlockFormat outcome" where
  "clamp_blockFormat_times blockFormat audioObject =
     (if rtime blockFormat = None \<or> duration blockFormat = None
      then clamp_blockFormat_interpolationLength blockFormat audioObject
      else and_then (clamp_blockFormat_start blockFormat audioObject)
                    (\<lambda>bf. clamp_blockFormat_end bf audioObject))"

text \<open>
  The loop over the blocks of one channel format. When a clamp raises, the blocks
  before it keep their new values and the blocks after it are untouched.
\<close>

fun clamp_blockFormats :: "AudioObject \<Rightarrow> BlockFormat list \<Rightarrow> BlockFormat list outcome" where
  "clamp_blockFormats audioObject [] = Done [] []"
| "clamp_blockFormats audioObject (blockFormat # rest) =
     (case clamp_blockFormat_times blockFormat audioObject of
        Raised e bf' ws \<Rightarrow> Raised e (bf' # rest) ws
      | Done bf' ws \<Rightarrow>
          warned ws (lift_outcome (\<lambda>rest'. bf' # rest') (clamp_blockFormats audioObject rest)))"

text \<open>
  The channel formats are shared objects: several audioObjects, or several selection
  states of one audioObject, may select the same channel format, and each clamp then
  works on what the previous one left. The document's list \<open>audioChannelFormats\<close> is
  the store, and the external mapping names a channel format by its position in that
  list. A position outside the list names no channel format of the document; the loop
  has nothing to do for it.
\<close>

definition clamp_channelFormat :: "AudioObject \<Rightarrow> nat \<Rightarrow> ADM \<Rightarrow> ADM outcome" where
  "clamp_channelFormat audioObject ci adm =
     (if ci < length (audioChannelFormats adm) then
        (let channelFormat = audioChannelFormats adm ! ci in
         lift_outcome
           (\<lambda>bfs. adm\<lparr>audioChannelFormats :=
                         (audioChannelFormats adm)[ci := channelFormat\<lparr>audioBlockFormats := bfs\<rparr>]\<rparr>)
           (clamp_blockFormats audioObject (audioBlockFormats channelFormat)))
      else Done adm [])"

text \<open>
  \<open>select_pack_mapping\<close> stands for the external pack allocator
  (\<open>_PackAllocator(adm).select_pack_mapping\<close> on the selection state of one
  audioObject): for an audioObject it gives the selection states, each one the list
  \<open>channel_allocation\<close> of channel formats (the track specs are not used).
\<close>

definition fix_blockFormat_times_for_audioObjects ::
  "(AudioObject \<Rightarrow> nat list list) \<Rightarrow> ADM \<Rightarrow> ADM outcome" where
  "fix_blockFormat_times_for_audioObjects select_pack_mapping adm =
     for_each (audioObjects adm)
       (\<lambda>audioObject adm1.
          if obj_start audioObject = None \<or> obj_duration audioObject = None
          then Done adm1 []
          else for_each (select_pack_mapping audioObject)
                 (\<lambda>state. for_each state (clamp_channelFormat audioObject)) adm1)
       adm"

subsection \<open>The entry point\<close>

definition fix_blockFormat_timings ::
  "(AudioObject \<Rightarrow> nat list list) \<Rightarrow> ADM \<Rightarrow> ADM outcome" where
  "fix_blockFormat_timings select_pack_mapping adm =
     (let (adm1, ws1) = fix_blockFormat_durations adm;
          (adm2, ws2) = fix_blockFormat_interpolationLengths adm1
      in warned (ws1 @ ws2) (fix_blockFormat_times_for_audioObjects select_pack_mapping adm2))"

subsection \<open>The calls of the entry point\<close>






fun warnings_of :: "'s outcome \<Rightarrow> diagnostic list" where
  "warnings_of (Done s ws) = ws"
| "warnings_of (Raised e s ws) = ws"

subsection \<open>Predicates used in the statements\<close>

fun is_Raised :: "'s outcome \<Rightarrow> bool" where
  "is_Raised (Raised e s ws) = True"
| "is_Raised (Done s ws) = False"

text \<open>
  The end of \<open>bf_a\<close> meets the start of \<open>bf_b\<close>; the pairs where one of the four times
  is unset are not constrained.
\<close>

definition meets :: "BlockFormat \<Rightarrow> BlockFormat \<Rightarrow> bool" where
  "meets bf_a bf_b =
     (case (rtime bf_a, duration bf_a, rtime bf_b, duration bf_b) of
        (Some rtime_a, Some duration_a, Some rtime_b, Some _) \<Rightarrow> rtime_b = rtime_a + duration_a
      | _ \<Rightarrow> True)"

fun contiguous :: "BlockFormat list \<Rightarrow> bool" where
  "contiguous (bf_a # bf_b # rest) = (meets bf_a bf_b \<and> contiguous (bf_b # rest))"
| "contiguous blockFormats = True"

definition blockFormats_of :: "ADM \<Rightarrow> nat \<Rightarrow> BlockFormat list" where
  "blockFormats_of adm ci = audioBlockFormats (audioChannelFormats adm ! ci)"

subsection \<open>Example documents\<close>

definition gap_scene :: ADM where
  "gap_scene =
     \<lparr>audioChannelFormats =
        [\<lparr>cf_id = ''AC_1'', audioBlockFormats =
           [\<lparr>bf_id = ''A'', rtime = Some 0, duration = Some 3, cls = AudioBlockFormatOther\<rparr>,
            \<lparr>bf_id = ''B'', rtime = Some 5, duration = Some 2, cls = AudioBlockFormatOther\<rparr>]\<rparr>],
      audioObjects = []\<rparr>"

definition rtime_unset_scene :: ADM where
  "rtime_unset_scene =
     \<lparr>audioChannelFormats =
        [\<lparr>cf_id = ''AC_1'', audioBlockFormats =
           [\<lparr>bf_id = ''A'', rtime = None, duration = Some 5,
             cls = AudioBlockFormatObjects \<lparr>flag = True, interpolationLength = Some 8\<rparr>\<rparr>]\<rparr>],
      audioObjects = []\<rparr>"

definition mixed_interpolation_scene :: ADM where
  "mixed_interpolation_scene =
     \<lparr>audioChannelFormats =
        [\<lparr>cf_id = ''AC_1'', audioBlockFormats =
           [\<lparr>bf_id = ''A'', rtime = Some 0, duration = Some 5,
             cls = AudioBlockFormatObjects \<lparr>flag = True, interpolationLength = Some 8\<rparr>\<rparr>,
            \<lparr>bf_id = ''U'', rtime = None, duration = Some 5,
             cls = AudioBlockFormatObjects \<lparr>flag = True, interpolationLength = Some 8\<rparr>\<rparr>]\<rparr>],
      audioObjects = []\<rparr>"

definition contracted_scene :: ADM where
  "contracted_scene =
     \<lparr>audioChannelFormats =
        [\<lparr>cf_id = ''AC_1'', audioBlockFormats =
           [\<lparr>bf_id = ''A'', rtime = Some 0, duration = Some 10,
             cls = AudioBlockFormatObjects \<lparr>flag = True, interpolationLength = Some 8\<rparr>\<rparr>,
            \<lparr>bf_id = ''B'', rtime = Some 4, duration = Some 1, cls = AudioBlockFormatOther\<rparr>]\<rparr>],
      audioObjects = []\<rparr>"

subsection \<open>Predicates of pass 3\<close>


definition settled :: "AudioObject \<Rightarrow> BlockFormat \<Rightarrow> bool" where
  "settled audioObject blockFormat =
     (clamp_blockFormat_times blockFormat audioObject = Done blockFormat [])"

definition selected_channelFormats ::
  "(AudioObject \<Rightarrow> nat list list) \<Rightarrow> AudioObject list \<Rightarrow> (AudioObject \<times> nat) list" where
  "selected_channelFormats select_pack_mapping objs =
     concat (map (\<lambda>audioObject.
        if obj_start audioObject = None \<or> obj_duration audioObject = None then []
        else map (Pair audioObject) (concat (select_pack_mapping audioObject))) objs)"

definition channel_settled :: "AudioObject \<times> nat \<Rightarrow> ADM \<Rightarrow> bool" where
  "channel_settled sel adm =
     (snd sel < length (audioChannelFormats adm) \<longrightarrow>
        (\<forall>b \<in> set (blockFormats_of adm (snd sel)). settled (fst sel) b))"



subsection \<open>Well-timed and steady documents\<close>

text \<open>
  A document is well timed when every block with timing has a non-negative duration
  and, along each channel format, two consecutive blocks with timing have
  non-decreasing \<open>rtime\<close>s. A list of blocks is steady when it is contiguous, its
  durations are non-negative and the interpolation lengths of its blocks with timing
  are within their durations.
\<close>

definition nonneg_duration :: "BlockFormat \<Rightarrow> bool" where
  "nonneg_duration blockFormat =
     (case (rtime blockFormat, duration blockFormat) of
        (Some _, Some d) \<Rightarrow> 0 \<le> d
      | _ \<Rightarrow> True)"

definition rtime_ordered :: "BlockFormat \<Rightarrow> BlockFormat \<Rightarrow> bool" where
  "rtime_ordered bf_a bf_b =
     (case (rtime bf_a, duration bf_a, rtime bf_b, duration bf_b) of
        (Some rtime_a, Some _, Some rtime_b, Some _) \<Rightarrow> rtime_a \<le> rtime_b
      | _ \<Rightarrow> True)"

fun rtimes_ordered :: "BlockFormat list \<Rightarrow> bool" where
  "rtimes_ordered (bf_a # bf_b # rest) = (rtime_ordered bf_a bf_b \<and> rtimes_ordered (bf_b # rest))"
| "rtimes_ordered blockFormats = True"

definition well_timed :: "ADM \<Rightarrow> bool" where
  "well_timed adm =
     list_all (\<lambda>channelFormat.
         list_all nonneg_duration (audioBlockFormats channelFormat)
       \<and> rtimes_ordered (audioBlockFormats channelFormat))
       (audioChannelFormats adm)"

definition interpolationLength_bounded :: "BlockFormat \<Rightarrow> bool" where
  "interpolationLength_bounded blockFormat =
     (case (rtime blockFormat, duration blockFormat, defined_interpolationLength blockFormat) of
        (Some _, Some d, Some il) \<Rightarrow> il \<le> d
      | _ \<Rightarrow> True)"

definition steady :: "BlockFormat list \<Rightarrow> bool" where
  "steady blockFormats =
     (contiguous blockFormats \<and> list_all nonneg_duration blockFormats
      \<and> list_all interpolationLength_bounded blockFormats)"

definition steady_scene :: "ADM \<Rightarrow> bool" where
  "steady_scene adm =
     list_all (\<lambda>channelFormat. steady (audioBlockFormats channelFormat))
       (audioChannelFormats adm)"

definition backwards_scene :: ADM where
  "backwards_scene =
     \<lparr>audioChannelFormats =
        [\<lparr>cf_id = ''AC_1'', audioBlockFormats =
           [\<lparr>bf_id = ''P'', rtime = Some 10, duration = Some 1, cls = AudioBlockFormatOther\<rparr>,
            \<lparr>bf_id = ''A'', rtime = Some 0, duration = Some 20, cls = AudioBlockFormatOther\<rparr>]\<rparr>],
      audioObjects = [\<lparr>obj_id = ''AO_1'', obj_start = Some 5, obj_duration = Some 100\<rparr>]\<rparr>"

definition backwards_scene_once :: ADM where
  "backwards_scene_once =
     \<lparr>audioChannelFormats =
        [\<lparr>cf_id = ''AC_1'', audioBlockFormats =
           [\<lparr>bf_id = ''P'', rtime = Some 10, duration = Some (- 10), cls = AudioBlockFormatOther\<rparr>,
            \<lparr>bf_id = ''A'', rtime = Some 5, duration = Some 15, cls = AudioBlockFormatOther\<rparr>]\<rparr>],
      audioObjects = [\<lparr>obj_id = ''AO_1'', obj_start = Some 5, obj_duration = Some 100\<rparr>]\<rparr>"

definition backwards_scene_twice :: ADM where
  "backwards_scene_twice =
     \<lparr>audioChannelFormats =
        [\<lparr>cf_id = ''AC_1'', audioBlockFormats =
           [\<lparr>bf_id = ''P'', rtime = Some 10, duration = Some (- 5), cls = AudioBlockFormatOther\<rparr>,
            \<lparr>bf_id = ''A'', rtime = Some 5, duration = Some 15, cls = AudioBlockFormatOther\<rparr>]\<rparr>],
      audioObjects = [\<lparr>obj_id = ''AO_1'', obj_start = Some 5, obj_duration = Some 100\<rparr>]\<rparr>"

definition delayed_scene :: ADM where
  "delayed_scene =
     \<lparr>audioChannelFormats =
        [\<lparr>cf_id = ''AC_1'', audioBlockFormats =
           [\<lparr>bf_id = ''A'', rtime = Some 0, duration = Some 4,
             cls = AudioBlockFormatObjects \<lparr>flag = True, interpolationLength = Some 6\<rparr>\<rparr>,
            \<lparr>bf_id = ''B'', rtime = Some 6, duration = Some 4, cls = AudioBlockFormatOther\<rparr>]\<rparr>],
      audioObjects = [\<lparr>obj_id = ''AO_1'', obj_start = Some 1, obj_duration = Some 9\<rparr>]\<rparr>"

definition delayed_scene_once :: ADM where
  "delayed_scene_once =
     \<lparr>audioChannelFormats =
        [\<lparr>cf_id = ''AC_1'', audioBlockFormats =
           [\<lparr>bf_id = ''A'', rtime = Some 1, duration = Some 5,
             cls = AudioBlockFormatObjects \<lparr>flag = True, interpolationLength = Some 5\<rparr>\<rparr>,
            \<lparr>bf_id = ''B'', rtime = Some 6, duration = Some 4, cls = AudioBlockFormatOther\<rparr>]\<rparr>],
      audioObjects = [\<lparr>obj_id = ''AO_1'', obj_start = Some 1, obj_duration = Some 9\<rparr>]\<rparr>"

section \<open>Properties\<close>

subsection \<open>The interpolation length of a block\<close>

lemma has_interpolationLength_iff:
  "has_interpolationLength bf \<longleftrightarrow> defined_interpolationLength bf \<noteq> None"
  by (simp add: has_interpolationLength_def defined_interpolationLength_def
           split: BlockFormatClass.splits)

lemma set_interpolationLength_fields [simp]:
  "rtime (set_interpolationLength v bf) = rtime bf"
  "duration (set_interpolationLength v bf) = duration bf"
  "bf_id (set_interpolationLength v bf) = bf_id bf"
  by (simp_all add: set_interpolationLength_def split: BlockFormatClass.splits)

lemma defined_interpolationLength_set:
  "defined_interpolationLength bf = Some il \<Longrightarrow>
     defined_interpolationLength (set_interpolationLength v bf) = Some v"
  by (auto simp add: defined_interpolationLength_def set_interpolationLength_def
           split: BlockFormatClass.splits if_splits)

lemma defined_interpolationLength_time_update [simp]:
  "defined_interpolationLength (bf\<lparr>rtime := x\<rparr>) = defined_interpolationLength bf"
  "defined_interpolationLength (bf\<lparr>duration := y\<rparr>) = defined_interpolationLength bf"
  by (simp_all add: defined_interpolationLength_def)

lemma has_interpolationLength_time_update [simp]:
  "has_interpolationLength (bf\<lparr>rtime := x\<rparr>) = has_interpolationLength bf"
  "has_interpolationLength (bf\<lparr>duration := y\<rparr>) = has_interpolationLength bf"
  by (simp_all add: has_interpolationLength_def)

subsection \<open>The start clamp\<close>

text \<open>
  Claim C2. A block with \<open>rtime\<close> and \<open>duration\<close> set is clamped against an audioObject
  with \<open>start\<close> and \<open>duration\<close> set, and \<open>rtime < start\<close>; let \<open>shift = start - rtime\<close>.
  The start clamp raises if and only if \<open>shift \<ge> duration\<close>, or the block has an
  interpolation length and it is \<open>\<le> shift\<close>; what it raises is one of the ValueErrors.
  Otherwise it returns with exactly one warning, and the block is the old one with
  \<open>rtime + shift\<close>, \<open>duration - shift\<close> and, where the block has an interpolation length,
  \<open>interpolationLength - shift\<close>.
\<close>

theorem clamp_start_spec:
  assumes "rtime bf = Some r" and "duration bf = Some d"
    and "obj_start obj = Some s" and "obj_duration obj = Some od"
    and "r < s" and "shift = s - r"
  shows "(is_Raised (clamp_blockFormat_start bf obj) \<longleftrightarrow>
            (shift \<ge> d \<or> (has_interpolationLength bf \<and>
                 (\<exists>il. defined_interpolationLength bf = Some il \<and> il \<le> shift))))
       \<and> (\<forall>e bf' ws. clamp_blockFormat_start bf obj = Raised e bf' ws \<longrightarrow> is_ValueError e)
       \<and> (\<not> is_Raised (clamp_blockFormat_start bf obj) \<longrightarrow>
            (\<exists>bf'. clamp_blockFormat_start bf obj =
                      Done bf' [DelayedRtime (bf_id bf) (obj_id obj) shift]
                \<and> bf' = (case defined_interpolationLength bf of
                           Some il \<Rightarrow> set_interpolationLength (il - shift)
                                        (bf\<lparr>rtime := Some (r + shift), duration := Some (d - shift)\<rparr>)
                         | None \<Rightarrow> bf\<lparr>rtime := Some (r + shift), duration := Some (d - shift)\<rparr>)
                \<and> rtime bf' = Some (r + shift)
                \<and> duration bf' = Some (d - shift)
                \<and> has_interpolationLength bf' = has_interpolationLength bf
                \<and> defined_interpolationLength bf' =
                     map_option (\<lambda>il. il - shift) (defined_interpolationLength bf)))"
  using assms
  by (auto simp: clamp_blockFormat_start_def Let_def has_interpolationLength_iff
        defined_interpolationLength_set split: option.splits)

theorem clamp_start_spec_witness:
  "clamp_blockFormat_start
     \<lparr>bf_id = ''AB_1'', rtime = Some 0, duration = Some 10,
      cls = AudioBlockFormatObjects \<lparr>flag = True, interpolationLength = Some 8\<rparr>\<rparr>
     \<lparr>obj_id = ''AO_1'', obj_start = Some 3, obj_duration = Some 20\<rparr>
   = Done \<lparr>bf_id = ''AB_1'', rtime = Some 3, duration = Some 7,
      cls = AudioBlockFormatObjects \<lparr>flag = True, interpolationLength = Some 5\<rparr>\<rparr>
      [DelayedRtime ''AB_1'' ''AO_1'' 3]"
  using clamp_start_spec [of
     "\<lparr>bf_id = ''AB_1'', rtime = Some 0, duration = Some 10,
      cls = AudioBlockFormatObjects \<lparr>flag = True, interpolationLength = Some 8\<rparr>\<rparr>"
     0 10 "\<lparr>obj_id = ''AO_1'', obj_start = Some 3, obj_duration = Some 20\<rparr>" 3 20 3]
  by (simp add: defined_interpolationLength_def set_interpolationLength_def
        has_interpolationLength_def)

subsection \<open>The end clamp\<close>

text \<open>
  Claim C3. For a block with \<open>rtime\<close> and \<open>duration\<close> set (as the start clamp left it)
  and an audioObject with \<open>start\<close> and \<open>duration\<close> set, with
  \<open>rtime + duration > start + duration\<close> of the object and \<open>shift\<close> the difference:
  the end clamp raises if and only if \<open>shift \<ge> duration\<close>, and then a ValueError.
  Otherwise it subtracts \<open>shift\<close> from the duration with one warning; if the block has
  an interpolation length greater than the new duration, the interpolation length
  becomes the new duration and there is a second warning.
\<close>

theorem clamp_end_spec:
  assumes "rtime bf = Some r" and "duration bf = Some d"
    and "obj_start obj = Some s" and "obj_duration obj = Some od"
    and "r + d > s + od" and "shift = (r + d) - (s + od)"
  shows "(is_Raised (clamp_blockFormat_end bf obj) \<longleftrightarrow> shift \<ge> d)
       \<and> (\<forall>e bf' ws. clamp_blockFormat_end bf obj = Raised e bf' ws \<longrightarrow> is_ValueError e)
       \<and> (\<not> is_Raised (clamp_blockFormat_end bf obj) \<longrightarrow>
            (\<exists>bf' ws. clamp_blockFormat_end bf obj = Done bf' ws
                \<and> rtime bf' = Some r
                \<and> duration bf' = Some (d - shift)
                \<and> (if has_interpolationLength bf \<and>
                       (\<exists>il. defined_interpolationLength bf = Some il \<and> il > d - shift)
                    then bf' = set_interpolationLength (d - shift) (bf\<lparr>duration := Some (d - shift)\<rparr>)
                       \<and> defined_interpolationLength bf' = Some (d - shift)
                       \<and> ws = [AdvancingEnd (bf_id bf) (obj_id obj) shift,
                               AdvancingEndInterpolationLength (bf_id bf) (obj_id obj)]
                    else bf' = bf\<lparr>duration := Some (d - shift)\<rparr>
                       \<and> defined_interpolationLength bf' = defined_interpolationLength bf
                       \<and> ws = [AdvancingEnd (bf_id bf) (obj_id obj) shift])))"
  using assms
  by (auto simp: clamp_blockFormat_end_def Let_def has_interpolationLength_iff
        defined_interpolationLength_set split: option.splits)

theorem clamp_end_spec_witness:
  "clamp_blockFormat_end
     \<lparr>bf_id = ''AB_1'', rtime = Some 0, duration = Some 10,
      cls = AudioBlockFormatObjects \<lparr>flag = True, interpolationLength = Some 9\<rparr>\<rparr>
     \<lparr>obj_id = ''AO_1'', obj_start = Some 0, obj_duration = Some 6\<rparr>
   = Done \<lparr>bf_id = ''AB_1'', rtime = Some 0, duration = Some 6,
      cls = AudioBlockFormatObjects \<lparr>flag = True, interpolationLength = Some 6\<rparr>\<rparr>
      [AdvancingEnd ''AB_1'' ''AO_1'' 4, AdvancingEndInterpolationLength ''AB_1'' ''AO_1'']"
  using clamp_end_spec [of
     "\<lparr>bf_id = ''AB_1'', rtime = Some 0, duration = Some 10,
      cls = AudioBlockFormatObjects \<lparr>flag = True, interpolationLength = Some 9\<rparr>\<rparr>"
     0 10 "\<lparr>obj_id = ''AO_1'', obj_start = Some 0, obj_duration = Some 6\<rparr>" 0 6 4]
  by (simp add: defined_interpolationLength_def set_interpolationLength_def
        has_interpolationLength_def)

subsection \<open>Blocks without timing\<close>

text \<open>
  Claim C8. A block whose \<open>rtime\<close> or \<open>duration\<close> is unset, clamped against an
  audioObject with \<open>start\<close> and \<open>duration\<close> set: the call returns (it never raises),
  \<open>rtime\<close> and \<open>duration\<close> are as before, and if the block has an interpolation length
  greater than the object's duration it becomes the object's duration, with one
  warning; otherwise the block is unchanged and there is no warning.
\<close>

theorem clamp_unset_timing:
  assumes "rtime bf = None \<or> duration bf = None"
    and "obj_start obj = Some s" and "obj_duration obj = Some od"
  shows "\<exists>bf' ws. clamp_blockFormat_times bf obj = Done bf' ws
           \<and> rtime bf' = rtime bf \<and> duration bf' = duration bf
           \<and> (if has_interpolationLength bf \<and>
                  (\<exists>il. defined_interpolationLength bf = Some il \<and> il > od)
               then bf' = set_interpolationLength od bf
                  \<and> defined_interpolationLength bf' = Some od
                  \<and> ws = [ReducedInterpolationLength (bf_id bf) (obj_id obj)]
               else bf' = bf \<and> ws = [])"
proof (cases "defined_interpolationLength bf")
  case None
  with assms show ?thesis
    by (auto simp: clamp_blockFormat_times_def clamp_blockFormat_interpolationLength_def
        has_interpolationLength_iff)
next
  case (Some il)
  show ?thesis
  proof (cases "il > od")
    case True
    with Some assms show ?thesis
      by (auto simp: clamp_blockFormat_times_def clamp_blockFormat_interpolationLength_def
          has_interpolationLength_iff defined_interpolationLength_set)
  next
    case False
    with Some assms show ?thesis
      by (auto simp: clamp_blockFormat_times_def clamp_blockFormat_interpolationLength_def
          has_interpolationLength_iff)
  qed
qed

theorem clamp_unset_timing_witness:
  "clamp_blockFormat_times
     \<lparr>bf_id = ''AB_1'', rtime = None, duration = None,
      cls = AudioBlockFormatObjects \<lparr>flag = True, interpolationLength = Some 9\<rparr>\<rparr>
     \<lparr>obj_id = ''AO_1'', obj_start = Some 0, obj_duration = Some 6\<rparr>
   = Done \<lparr>bf_id = ''AB_1'', rtime = None, duration = None,
      cls = AudioBlockFormatObjects \<lparr>flag = True, interpolationLength = Some 6\<rparr>\<rparr>
      [ReducedInterpolationLength ''AB_1'' ''AO_1'']"
  using clamp_unset_timing [of
     "\<lparr>bf_id = ''AB_1'', rtime = None, duration = None,
      cls = AudioBlockFormatObjects \<lparr>flag = True, interpolationLength = Some 9\<rparr>\<rparr>"
     "\<lparr>obj_id = ''AO_1'', obj_start = Some 0, obj_duration = Some 6\<rparr>" 0 6]
  by (simp add: defined_interpolationLength_def set_interpolationLength_def
        has_interpolationLength_def)

subsection \<open>A clamp that raises has not written\<close>

text \<open>
  Claim C10. When \<open>_clamp_blockFormat_start\<close> or \<open>_clamp_blockFormat_end\<close> raises, the
  block is as it was before that call, and the call has emitted no warning (this holds
  for every exception, so for the three ValueErrors). The start clamp is not rolled
  back when the end clamp raises after it: for the block \<open>rtime = 0\<close>, \<open>duration = 10\<close>
  in the object \<open>start = 2\<close>, \<open>duration = 0\<close>, the start clamp moves the block to
  \<open>rtime = 2\<close>, \<open>duration = 8\<close>, the end clamp raises, and the block stays moved.
\<close>

theorem clamp_raise_leaves_block:
  "(clamp_blockFormat_start bf obj = Raised e bf' ws \<longrightarrow> bf' = bf \<and> ws = [])
 \<and> (clamp_blockFormat_end bf obj = Raised e bf' ws \<longrightarrow> bf' = bf \<and> ws = [])
 \<and> clamp_blockFormat_times
      \<lparr>bf_id = ''AB_1'', rtime = Some 0, duration = Some 10, cls = AudioBlockFormatOther\<rparr>
      \<lparr>obj_id = ''AO_1'', obj_start = Some 2, obj_duration = Some 0\<rparr>
    = Raised (AdvanceBeforeBlockStart ''AB_1'' ''AO_1'' 8)
       \<lparr>bf_id = ''AB_1'', rtime = Some 2, duration = Some 8, cls = AudioBlockFormatOther\<rparr>
       [DelayedRtime ''AB_1'' ''AO_1'' 2]"
  by (auto simp: clamp_blockFormat_start_def clamp_blockFormat_end_def clamp_blockFormat_times_def
      defined_interpolationLength_def Let_def split: option.splits if_splits)

theorem clamp_raise_leaves_block_witness:
  "clamp_blockFormat_start
      \<lparr>bf_id = ''AB_1'', rtime = Some 0, duration = Some 2, cls = AudioBlockFormatOther\<rparr>
      \<lparr>obj_id = ''AO_1'', obj_start = Some 5, obj_duration = Some 10\<rparr>
    = Raised (DelayAfterBlockEnd ''AB_1'' ''AO_1'' 5)
      \<lparr>bf_id = ''AB_1'', rtime = Some 0, duration = Some 2, cls = AudioBlockFormatOther\<rparr> []"
proof -
  let ?bf = "\<lparr>bf_id = ''AB_1'', rtime = Some 0, duration = Some 2, cls = AudioBlockFormatOther\<rparr>"
  let ?obj = "\<lparr>obj_id = ''AO_1'', obj_start = Some 5, obj_duration = Some 10\<rparr>"
  obtain bf' ws where r: "clamp_blockFormat_start ?bf ?obj = Raised (DelayAfterBlockEnd ''AB_1'' ''AO_1'' 5) bf' ws"
    by (simp add: clamp_blockFormat_start_def)
  from clamp_raise_leaves_block [of ?bf ?obj "DelayAfterBlockEnd ''AB_1'' ''AO_1'' 5" bf' ws] r
  have "bf' = ?bf \<and> ws = []" by blast
  with r show ?thesis by simp
qed

subsection \<open>Pass 1: the end of a block meets the start of the next\<close>

lemma fix_duration_pair_times:
  assumes "fix_duration_pair a b = (a', ws)"
  shows "rtime a' = rtime a" and "(duration a' = None) = (duration a = None)"
    and "bf_id a' = bf_id a" and "meets a' b"
  using assms
  by (auto simp: fix_duration_pair_def meets_def Let_def split: option.splits if_splits)

lemma fix_durations_blocks_shape:
  "fix_durations_blocks bs = (bs', ws) \<Longrightarrow>
     length bs' = length bs \<and> map rtime bs' = map rtime bs
     \<and> map (\<lambda>b. duration b = None) bs' = map (\<lambda>b. duration b = None) bs"
proof (induction bs arbitrary: bs' ws rule: fix_durations_blocks.induct)
  case (1 a b rest)
  obtain a' w1 where p: "fix_duration_pair a b = (a', w1)" by force
  obtain r' w2 where r: "fix_durations_blocks (b # rest) = (r', w2)" by force
  from "1.prems" p r have bs': "bs' = a' # r'" by simp
  from "1.IH"[OF refl p[symmetric] r] bs' fix_duration_pair_times(1,2)[OF p]
  show ?case by simp
qed simp_all

lemma meets_cong:
  "meets a b \<Longrightarrow> rtime b' = rtime b \<Longrightarrow> (duration b' = None) = (duration b = None)
     \<Longrightarrow> meets a b'"
  by (auto simp: meets_def split: option.splits)

lemma fix_durations_blocks_contiguous:
  "fix_durations_blocks bs = (bs', ws) \<Longrightarrow> contiguous bs'"
proof (induction bs arbitrary: bs' ws rule: fix_durations_blocks.induct)
  case (1 a b rest)
  obtain a' w1 where p: "fix_duration_pair a b = (a', w1)" by force
  obtain r' w2 where r: "fix_durations_blocks (b # rest) = (r', w2)" by force
  from "1.prems" p r have bs': "bs' = a' # r'" by simp
  from fix_durations_blocks_shape[OF r] obtain b' t' where r': "r' = b' # t'"
    and b': "rtime b' = rtime b" "(duration b' = None) = (duration b = None)"
    by (cases r') auto
  have "meets a' b'" using fix_duration_pair_times(4)[OF p] b' by (rule meets_cong)
  moreover have "contiguous r'" using "1.IH"[OF refl p[symmetric] r] .
  ultimately show ?case using bs' r' by simp
qed simp_all

lemma fix_durations_blocks_last:
  "fix_durations_blocks bs = (bs', ws) \<Longrightarrow> bs \<noteq> [] \<Longrightarrow> last bs' = last bs"
proof (induction bs arbitrary: bs' ws rule: fix_durations_blocks.induct)
  case (1 a b rest)
  obtain a' w1 where p: "fix_duration_pair a b = (a', w1)" by force
  obtain r' w2 where r: "fix_durations_blocks (b # rest) = (r', w2)" by force
  from "1.prems" p r have bs': "bs' = a' # r'" by simp
  from fix_durations_blocks_shape[OF r] have "r' \<noteq> []" by auto
  with "1.IH"[OF refl p[symmetric] r] bs' show ?case by simp
qed simp_all

lemma fix_durations_blocks_nth:
  "fix_durations_blocks bs = (bs', ws) \<Longrightarrow> i < length bs \<Longrightarrow>
     bs' ! i = (if Suc i < length bs then fst (fix_duration_pair (bs ! i) (bs ! Suc i))
                else bs ! i)"
proof (induction bs arbitrary: bs' ws i rule: fix_durations_blocks.induct)
  case (1 a b rest)
  obtain a' w1 where p: "fix_duration_pair a b = (a', w1)" by force
  obtain r' w2 where r: "fix_durations_blocks (b # rest) = (r', w2)" by force
  from "1.prems" p r have bs': "bs' = a' # r'" by simp
  show ?case
  proof (cases i)
    case 0
    with bs' p show ?thesis by simp
  next
    case (Suc j)
    with "1.prems" have "j < length (b # rest)" by simp
    from "1.IH"[OF refl p[symmetric] r this] Suc bs' show ?thesis by simp
  qed
qed auto

lemma contiguous_nth:
  "contiguous bs \<Longrightarrow> Suc i < length bs \<Longrightarrow> meets (bs ! i) (bs ! Suc i)"
proof (induction bs arbitrary: i rule: contiguous.induct)
  case (1 a b rest)
  then show ?case by (cases i) auto
qed simp_all

lemma for_each_channelFormat_nth:
  "for_each_channelFormat body cfs = (cfs', ws) \<Longrightarrow>
     length cfs' = length cfs \<and>
     (\<forall>ci < length cfs. cfs' ! ci =
         (cfs ! ci)\<lparr>audioBlockFormats := fst (body (audioBlockFormats (cfs ! ci)))\<rparr>)"
proof (induction cfs arbitrary: cfs' ws)
  case Nil
  then show ?case by simp
next
  case (Cons cf rest)
  obtain b' w1 where p: "body (audioBlockFormats cf) = (b', w1)" by force
  obtain r' w2 where r: "for_each_channelFormat body rest = (r', w2)" by force
  from Cons.prems p r have cfs': "cfs' = cf\<lparr>audioBlockFormats := b'\<rparr> # r'" by simp
  from Cons.IH[OF r] cfs' p show ?case by (auto simp: nth_Cons split: nat.splits)
qed

lemma fix_duration_pair_changed:
  assumes "rtime a = Some ra" and "duration a = Some old"
    and "rtime b = Some rb" and "duration b = Some db"
  shows "duration (fst (fix_duration_pair a b)) = Some (rb - ra)"
  using assms by (auto simp: fix_duration_pair_def Let_def split: option.splits)

lemma meets_iff:
  "meets a b \<longleftrightarrow> (\<forall>ra da rb db. rtime a = Some ra \<and> duration a = Some da \<and>
      rtime b = Some rb \<and> duration b = Some db \<longrightarrow> rb = ra + da)"
  by (auto simp: meets_def split: option.splits)

lemma fix_blockFormat_durations_nth:
  assumes "fix_blockFormat_durations adm = (adm', ws)"
  shows "length (audioChannelFormats adm') = length (audioChannelFormats adm)"
    and "audioObjects adm' = audioObjects adm"
    and "ci < length (audioChannelFormats adm) \<Longrightarrow>
           blockFormats_of adm' ci = fst (fix_durations_blocks (blockFormats_of adm ci))"
proof -
  obtain cfs' where c: "for_each_channelFormat fix_durations_blocks (audioChannelFormats adm) = (cfs', ws)"
    and adm': "adm' = adm\<lparr>audioChannelFormats := cfs'\<rparr>"
    using assms by (auto simp: fix_blockFormat_durations_def split: prod.splits)
  note n = for_each_channelFormat_nth[OF c]
  show "length (audioChannelFormats adm') = length (audioChannelFormats adm)"
    using n adm' by simp
  show "audioObjects adm' = audioObjects adm" using adm' by simp
  show "blockFormats_of adm' ci = fst (fix_durations_blocks (blockFormats_of adm ci))"
    if "ci < length (audioChannelFormats adm)"
    using n adm' that by (simp add: blockFormats_of_def)
qed

text \<open>
  Claim C1. After \<open>fix_blockFormat_durations\<close>, in every channel format (\<open>bs\<close> its
  blocks before, \<open>bs'\<close> after): the number of blocks is the same; every two consecutive
  blocks \<open>a\<close>, \<open>b\<close> of \<open>bs'\<close> with \<open>rtime\<close> and \<open>duration\<close> set on both satisfy
  \<open>rtime b = rtime a + duration a\<close>; where the four times were set before the pass, the
  duration of \<open>a\<close> is now \<open>rtime b - rtime a\<close>; and the last block is the one before the
  pass.
\<close>

theorem durations_contiguous:
  assumes "fix_blockFormat_durations adm = (adm', ws)"
    and "ci < length (audioChannelFormats adm)"
    and "bs = blockFormats_of adm ci" and "bs' = blockFormats_of adm' ci"
  shows "length bs' = length bs
     \<and> (\<forall>i ra da rb db.
           Suc i < length bs'
         \<and> rtime (bs' ! i) = Some ra \<and> duration (bs' ! i) = Some da
         \<and> rtime (bs' ! Suc i) = Some rb \<and> duration (bs' ! Suc i) = Some db
         \<longrightarrow> rb = ra + da)
     \<and> (\<forall>i ra da rb db.
           Suc i < length bs
         \<and> rtime (bs ! i) = Some ra \<and> duration (bs ! i) = Some da
         \<and> rtime (bs ! Suc i) = Some rb \<and> duration (bs ! Suc i) = Some db
         \<longrightarrow> duration (bs' ! i) = Some (rb - ra))
     \<and> (bs \<noteq> [] \<longrightarrow> last bs' = last bs)"
proof -
  obtain ws' where f: "fix_durations_blocks bs = (bs', ws')"
    using fix_blockFormat_durations_nth(3)[OF assms(1,2)] assms(3,4)
    by (cases "fix_durations_blocks bs") simp
  have len: "length bs' = length bs"
    using fix_durations_blocks_shape[OF f] by simp
  have cont: "contiguous bs'"
    using fix_durations_blocks_contiguous[OF f] .
  have a: "rb = ra + da"
    if "Suc i < length bs'" "rtime (bs' ! i) = Some ra" "duration (bs' ! i) = Some da"
      "rtime (bs' ! Suc i) = Some rb" "duration (bs' ! Suc i) = Some db" for i ra da rb db
    using contiguous_nth[OF cont that(1)] that(2-5) by (simp add: meets_def)
  have b: "duration (bs' ! i) = Some (rb - ra)"
    if "Suc i < length bs" "rtime (bs ! i) = Some ra" "duration (bs ! i) = Some da"
      "rtime (bs ! Suc i) = Some rb" "duration (bs ! Suc i) = Some db" for i ra da rb db
  proof -
    from that(1) have "i < length bs" by simp
    from fix_durations_blocks_nth[OF f this] that(1)
    have "bs' ! i = fst (fix_duration_pair (bs ! i) (bs ! Suc i))" by simp
    with fix_duration_pair_changed[OF that(2-5)] show ?thesis by simp
  qed
  have c: "bs \<noteq> [] \<longrightarrow> last bs' = last bs"
    using fix_durations_blocks_last[OF f] by blast
  from len a b c show ?thesis by blast
qed

theorem durations_contiguous_witness:
  "fix_blockFormat_durations gap_scene =
     (gap_scene\<lparr>audioChannelFormats :=
        [\<lparr>cf_id = ''AC_1'', audioBlockFormats =
           [\<lparr>bf_id = ''A'', rtime = Some 0, duration = Some 5, cls = AudioBlockFormatOther\<rparr>,
            \<lparr>bf_id = ''B'', rtime = Some 5, duration = Some 2, cls = AudioBlockFormatOther\<rparr>]\<rparr>]\<rparr>,
      [DurationChanged ''expanded'' ''A'' 3 5])
   \<and> duration (blockFormats_of (fst (fix_blockFormat_durations gap_scene)) 0 ! 0) = Some (5 - 0)
   \<and> last (blockFormats_of (fst (fix_blockFormat_durations gap_scene)) 0)
       = last (blockFormats_of gap_scene 0)"
proof -
  have h: "fix_blockFormat_durations gap_scene =
     (gap_scene\<lparr>audioChannelFormats :=
        [\<lparr>cf_id = ''AC_1'', audioBlockFormats =
           [\<lparr>bf_id = ''A'', rtime = Some 0, duration = Some 5, cls = AudioBlockFormatOther\<rparr>,
            \<lparr>bf_id = ''B'', rtime = Some 5, duration = Some 2, cls = AudioBlockFormatOther\<rparr>]\<rparr>]\<rparr>,
      [DurationChanged ''expanded'' ''A'' 3 5])"
    by (simp add: fix_blockFormat_durations_def gap_scene_def fix_duration_pair_def
        defined_interpolationLength_def)
  have ci: "0 < length (audioChannelFormats gap_scene)" by (simp add: gap_scene_def)
  from durations_contiguous[OF h ci refl refl]
  show ?thesis using h by (simp add: gap_scene_def blockFormats_of_def)
qed

subsection \<open>Pass 1: the interpolation length follows a contracted duration\<close>

lemma fix_duration_pair_cls:
  assumes "cls (fst (fix_duration_pair a b)) \<noteq> cls a"
  shows "\<exists>ra old rb db il. rtime a = Some ra \<and> duration a = Some old
           \<and> rtime b = Some rb \<and> duration b = Some db \<and> old \<noteq> rb - ra
           \<and> defined_interpolationLength a = Some il \<and> old \<ge> il \<and> il > rb - ra"
  using assms
  by (auto simp: fix_duration_pair_def Let_def split: option.splits if_splits)

lemma fix_duration_pair_changes:
  assumes "rtime a = Some ra" and "duration a = Some old_duration"
    and "rtime b = Some rb" and "duration b = Some db"
    and "new_duration = rb - ra" and "old_duration \<noteq> new_duration"
  shows "duration (fst (fix_duration_pair a b)) = Some new_duration
       \<and> (if has_interpolationLength a \<and>
              (\<exists>il. defined_interpolationLength a = Some il
                   \<and> old_duration \<ge> il \<and> il > new_duration)
           then fst (fix_duration_pair a b) =
                  set_interpolationLength new_duration (a\<lparr>duration := Some new_duration\<rparr>)
              \<and> defined_interpolationLength (fst (fix_duration_pair a b)) = Some new_duration
           else fst (fix_duration_pair a b) = a\<lparr>duration := Some new_duration\<rparr>
              \<and> cls (fst (fix_duration_pair a b)) = cls a)"
proof (cases "defined_interpolationLength a")
  case None
  with assms show ?thesis
    by (simp add: fix_duration_pair_def Let_def has_interpolationLength_iff)
next
  case (Some il)
  show ?thesis
  proof (cases "old_duration \<ge> il \<and> il > new_duration")
    case True
    with assms Some show ?thesis
      by (simp add: fix_duration_pair_def Let_def has_interpolationLength_iff
          defined_interpolationLength_set)
  next
    case False
    with assms Some show ?thesis
      by (auto simp add: fix_duration_pair_def Let_def has_interpolationLength_iff)
  qed
qed

lemma for_each_channelFormat_warnings:
  "snd (for_each_channelFormat body cfs) =
     concat (map (\<lambda>cf. snd (body (audioBlockFormats cf))) cfs)"
proof (induction cfs)
  case Nil
  show ?case by simp
next
  case (Cons cf rest)
  obtain b' w1 where p: "body (audioBlockFormats cf) = (b', w1)" by force
  obtain r' w2 where r: "for_each_channelFormat body rest = (r', w2)" by force
  from Cons.IH p r show ?case by simp
qed

lemma fix_durations_blocks_warnings:
  "snd (fix_durations_blocks bs) =
     concat (map (\<lambda>(a, b). snd (fix_duration_pair a b)) (zip (butlast bs) (tl bs)))"
proof (induction bs rule: fix_durations_blocks.induct)
  case (1 a b rest)
  obtain a' w1 where p: "fix_duration_pair a b = (a', w1)" by force
  obtain r' w2 where r: "fix_durations_blocks (b # rest) = (r', w2)" by force
  have "zip (butlast (a # b # rest)) (tl (a # b # rest))
          = (a, b) # zip (butlast (b # rest)) (tl (b # rest))" by simp
  with "1.IH"[OF refl p[symmetric]] p r show ?case by simp
qed simp_all

lemma snd_fix_duration_pair:
  "snd (fix_duration_pair a b) =
     (case (rtime a, duration a, rtime b, duration b) of
        (Some ra, Some old_duration, Some rb, Some db) \<Rightarrow>
          if old_duration \<noteq> rb - ra
          then [DurationChanged (if rb - ra > old_duration then ''expanded'' else ''contracted'')
                  (bf_id a) old_duration (rb - ra)]
          else []
      | _ \<Rightarrow> [])"
  by (simp add: fix_duration_pair_def Let_def split: option.splits)

lemma fix_blockFormat_durations_warnings:
  assumes "fix_blockFormat_durations adm = (adm', ws)"
  shows "ws = concat (map (\<lambda>cf. concat (map (\<lambda>(a, b).
             case (rtime a, duration a, rtime b, duration b) of
               (Some ra, Some old_duration, Some rb, Some db) \<Rightarrow>
                 if old_duration \<noteq> rb - ra
                 then [DurationChanged
                         (if rb - ra > old_duration then ''expanded'' else ''contracted'')
                         (bf_id a) old_duration (rb - ra)]
                 else []
             | _ \<Rightarrow> [])
           (zip (butlast (audioBlockFormats cf)) (tl (audioBlockFormats cf)))))
         (audioChannelFormats adm))"
proof -
  have "ws = snd (for_each_channelFormat fix_durations_blocks (audioChannelFormats adm))"
    using assms by (auto simp: fix_blockFormat_durations_def split: prod.splits)
  then show ?thesis
    by (simp add: for_each_channelFormat_warnings fix_durations_blocks_warnings
        snd_fix_duration_pair)
qed

text \<open>
  Claim C6, for the whole pass \<open>fix_blockFormat_durations\<close>. Let \<open>bs\<close> be the blocks of
  a channel format before the pass and \<open>bs'\<close> after it, and \<open>i\<close> a position in \<open>bs\<close>.
  \<^item> If block \<open>i\<close> has a successor, the four times of the pair are set and
    \<open>new_duration = rtime (bs ! Suc i) - rtime (bs ! i)\<close> differs from the old duration,
    then block \<open>i\<close> has the new duration after the pass, and: if it has an
    interpolation length \<open>il\<close> with \<open>old_duration \<ge> il > new_duration\<close>, its interpolation
    length is \<open>new_duration\<close> after the pass; otherwise the block differs from before in
    its duration only.
  \<^item> The jump position of block \<open>i\<close> differs from before only in that case.
  \<^item> The warnings of the pass are, channel format by channel format and pair by pair,
    one \<open>DurationChanged\<close> for every pair whose duration changes and nothing else: the
    change of the interpolation length has no warning of its own.
\<close>

theorem durations_interpolationLength:
  assumes "fix_blockFormat_durations adm = (adm', ws)"
    and "ci < length (audioChannelFormats adm)"
    and "bs = blockFormats_of adm ci" and "bs' = blockFormats_of adm' ci"
    and "i < length bs"
  shows "(\<forall>ra old_duration rb db new_duration.
            Suc i < length bs
          \<and> rtime (bs ! i) = Some ra \<and> duration (bs ! i) = Some old_duration
          \<and> rtime (bs ! Suc i) = Some rb \<and> duration (bs ! Suc i) = Some db
          \<and> new_duration = rb - ra \<and> old_duration \<noteq> new_duration \<longrightarrow>
            duration (bs' ! i) = Some new_duration
          \<and> (if has_interpolationLength (bs ! i) \<and>
                 (\<exists>il. defined_interpolationLength (bs ! i) = Some il
                      \<and> old_duration \<ge> il \<and> il > new_duration)
              then bs' ! i = set_interpolationLength new_duration
                               ((bs ! i)\<lparr>duration := Some new_duration\<rparr>)
                 \<and> defined_interpolationLength (bs' ! i) = Some new_duration
              else bs' ! i = (bs ! i)\<lparr>duration := Some new_duration\<rparr>
                 \<and> cls (bs' ! i) = cls (bs ! i)))
     \<and> (cls (bs' ! i) \<noteq> cls (bs ! i) \<longrightarrow>
          Suc i < length bs \<and>
          (\<exists>ra old_duration rb db il.
              rtime (bs ! i) = Some ra \<and> duration (bs ! i) = Some old_duration
            \<and> rtime (bs ! Suc i) = Some rb \<and> duration (bs ! Suc i) = Some db
            \<and> old_duration \<noteq> rb - ra
            \<and> has_interpolationLength (bs ! i)
            \<and> defined_interpolationLength (bs ! i) = Some il
            \<and> old_duration \<ge> il \<and> il > rb - ra))
     \<and> ws = concat (map (\<lambda>cf. concat (map (\<lambda>(a, b).
             case (rtime a, duration a, rtime b, duration b) of
               (Some ra, Some old_duration, Some rb, Some db) \<Rightarrow>
                 if old_duration \<noteq> rb - ra
                 then [DurationChanged
                         (if rb - ra > old_duration then ''expanded'' else ''contracted'')
                         (bf_id a) old_duration (rb - ra)]
                 else []
             | _ \<Rightarrow> [])
           (zip (butlast (audioBlockFormats cf)) (tl (audioBlockFormats cf)))))
         (audioChannelFormats adm))"
proof (intro conjI allI impI)
  obtain ws' where f: "fix_durations_blocks bs = (bs', ws')"
    using fix_blockFormat_durations_nth(3)[OF assms(1,2)] assms(3,4)
    by (cases "fix_durations_blocks bs") simp
  note n = fix_durations_blocks_nth[OF f assms(5)]
  {
    fix ra old_duration rb db new_duration
    assume h: "Suc i < length bs
          \<and> rtime (bs ! i) = Some ra \<and> duration (bs ! i) = Some old_duration
          \<and> rtime (bs ! Suc i) = Some rb \<and> duration (bs ! Suc i) = Some db
          \<and> new_duration = rb - ra \<and> old_duration \<noteq> new_duration"
    then have e: "bs' ! i = fst (fix_duration_pair (bs ! i) (bs ! Suc i))" using n by simp
    from h have c: "rtime (bs ! i) = Some ra" "duration (bs ! i) = Some old_duration"
      "rtime (bs ! Suc i) = Some rb" "duration (bs ! Suc i) = Some db"
      "new_duration = rb - ra" "old_duration \<noteq> new_duration" by simp_all
    note p = fix_duration_pair_changes[OF c, folded e]
    from p show "duration (bs' ! i) = Some new_duration" by (rule conjunct1)
    from p show "if has_interpolationLength (bs ! i) \<and>
                 (\<exists>il. defined_interpolationLength (bs ! i) = Some il
                      \<and> old_duration \<ge> il \<and> il > new_duration)
              then bs' ! i = set_interpolationLength new_duration
                               ((bs ! i)\<lparr>duration := Some new_duration\<rparr>)
                 \<and> defined_interpolationLength (bs' ! i) = Some new_duration
              else bs' ! i = (bs ! i)\<lparr>duration := Some new_duration\<rparr>
                 \<and> cls (bs' ! i) = cls (bs ! i)" by (rule conjunct2)
  }
  {
    assume c: "cls (bs' ! i) \<noteq> cls (bs ! i)"
    from n c show s: "Suc i < length bs" by (auto split: if_splits)
    with n have "bs' ! i = fst (fix_duration_pair (bs ! i) (bs ! Suc i))" by simp
    with c have "cls (fst (fix_duration_pair (bs ! i) (bs ! Suc i))) \<noteq> cls (bs ! i)" by simp
    from fix_duration_pair_cls[OF this]
    show "\<exists>ra old_duration rb db il.
              rtime (bs ! i) = Some ra \<and> duration (bs ! i) = Some old_duration
            \<and> rtime (bs ! Suc i) = Some rb \<and> duration (bs ! Suc i) = Some db
            \<and> old_duration \<noteq> rb - ra
            \<and> has_interpolationLength (bs ! i)
            \<and> defined_interpolationLength (bs ! i) = Some il
            \<and> old_duration \<ge> il \<and> il > rb - ra"
      by (auto simp: has_interpolationLength_iff)
  }
  show "ws = concat (map (\<lambda>cf. concat (map (\<lambda>(a, b).
             case (rtime a, duration a, rtime b, duration b) of
               (Some ra, Some old_duration, Some rb, Some db) \<Rightarrow>
                 if old_duration \<noteq> rb - ra
                 then [DurationChanged
                         (if rb - ra > old_duration then ''expanded'' else ''contracted'')
                         (bf_id a) old_duration (rb - ra)]
                 else []
             | _ \<Rightarrow> [])
           (zip (butlast (audioBlockFormats cf)) (tl (audioBlockFormats cf)))))
         (audioChannelFormats adm))"
    by (rule fix_blockFormat_durations_warnings[OF assms(1)])
qed

theorem durations_interpolationLength_witness:
  "fix_blockFormat_durations contracted_scene =
     (contracted_scene\<lparr>audioChannelFormats :=
        [\<lparr>cf_id = ''AC_1'', audioBlockFormats =
           [\<lparr>bf_id = ''A'', rtime = Some 0, duration = Some 4,
             cls = AudioBlockFormatObjects \<lparr>flag = True, interpolationLength = Some 4\<rparr>\<rparr>,
            \<lparr>bf_id = ''B'', rtime = Some 4, duration = Some 1, cls = AudioBlockFormatOther\<rparr>]\<rparr>]\<rparr>,
      [DurationChanged ''contracted'' ''A'' 10 4])
 \<and> defined_interpolationLength
       (blockFormats_of (fst (fix_blockFormat_durations contracted_scene)) 0 ! 0) = Some 4"
proof -
  let ?a = "\<lparr>bf_id = ''A'', rtime = Some 0, duration = Some 10,
             cls = AudioBlockFormatObjects \<lparr>flag = True, interpolationLength = Some 8\<rparr>\<rparr>"
  have h: "fix_blockFormat_durations contracted_scene =
     (contracted_scene\<lparr>audioChannelFormats :=
        [\<lparr>cf_id = ''AC_1'', audioBlockFormats =
           [\<lparr>bf_id = ''A'', rtime = Some 0, duration = Some 4,
             cls = AudioBlockFormatObjects \<lparr>flag = True, interpolationLength = Some 4\<rparr>\<rparr>,
            \<lparr>bf_id = ''B'', rtime = Some 4, duration = Some 1, cls = AudioBlockFormatOther\<rparr>]\<rparr>]\<rparr>,
      [DurationChanged ''contracted'' ''A'' 10 4])"
    by (simp add: contracted_scene_def fix_blockFormat_durations_def fix_duration_pair_def
        defined_interpolationLength_def set_interpolationLength_def)
  have ci: "0 < length (audioChannelFormats contracted_scene)"
    and i: "0 < length (blockFormats_of contracted_scene 0)"
    by (simp_all add: contracted_scene_def blockFormats_of_def)
  have c: "Suc 0 < length (blockFormats_of contracted_scene 0)
          \<and> rtime (blockFormats_of contracted_scene 0 ! 0) = Some 0
          \<and> duration (blockFormats_of contracted_scene 0 ! 0) = Some 10
          \<and> rtime (blockFormats_of contracted_scene 0 ! Suc 0) = Some 4
          \<and> duration (blockFormats_of contracted_scene 0 ! Suc 0) = Some 1
          \<and> (4::rat) = 4 - 0 \<and> (10::rat) \<noteq> 4"
    by (simp add: contracted_scene_def blockFormats_of_def)
  have d: "has_interpolationLength (blockFormats_of contracted_scene 0 ! 0) \<and>
           (\<exists>il. defined_interpolationLength (blockFormats_of contracted_scene 0 ! 0) = Some il
                \<and> (10::rat) \<ge> il \<and> il > 4)"
    by (simp add: contracted_scene_def blockFormats_of_def has_interpolationLength_def
        defined_interpolationLength_def)
  note r = durations_interpolationLength[OF h ci refl refl i, THEN conjunct1, rule_format, OF c]
  note r2 = r[THEN conjunct2, unfolded if_P[OF d], THEN conjunct2]
  have "fst (fix_blockFormat_durations contracted_scene) =
      contracted_scene\<lparr>audioChannelFormats :=
        [\<lparr>cf_id = ''AC_1'', audioBlockFormats =
           [\<lparr>bf_id = ''A'', rtime = Some 0, duration = Some 4,
             cls = AudioBlockFormatObjects \<lparr>flag = True, interpolationLength = Some 4\<rparr>\<rparr>,
            \<lparr>bf_id = ''B'', rtime = Some 4, duration = Some 1, cls = AudioBlockFormatOther\<rparr>]\<rparr>]\<rparr>"
    by (simp only: h fst_conv)
  with r2 h show ?thesis by (simp only: simp_thms)
qed

subsection \<open>Pass 2: interpolation lengths within the duration\<close>

lemma fix_interpolationLength_block_bounded:
  assumes "fix_interpolationLength_block b = (b', ws)"
  shows "rtime b' = rtime b" and "duration b' = duration b" and "bf_id b' = bf_id b"
    and "rtime b' = Some r \<Longrightarrow> duration b' = Some d \<Longrightarrow>
           defined_interpolationLength b' = Some il \<Longrightarrow> il \<le> d"
  using assms
  by (auto simp: fix_interpolationLength_block_def defined_interpolationLength_set
      split: option.splits if_splits)

lemma fix_interpolationLengths_blocks_map:
  "fst (fix_interpolationLengths_blocks bs) = map (\<lambda>b. fst (fix_interpolationLength_block b)) bs"
  by (induction bs) (auto split: prod.splits)

lemma fix_blockFormat_interpolationLengths_nth:
  assumes "fix_blockFormat_interpolationLengths adm = (adm', ws)"
  shows "length (audioChannelFormats adm') = length (audioChannelFormats adm)"
    and "audioObjects adm' = audioObjects adm"
    and "ci < length (audioChannelFormats adm) \<Longrightarrow>
           blockFormats_of adm' ci =
             map (\<lambda>b. fst (fix_interpolationLength_block b)) (blockFormats_of adm ci)"
proof -
  obtain cfs' where c: "for_each_channelFormat fix_interpolationLengths_blocks
                          (audioChannelFormats adm) = (cfs', ws)"
    and adm': "adm' = adm\<lparr>audioChannelFormats := cfs'\<rparr>"
    using assms by (auto simp: fix_blockFormat_interpolationLengths_def split: prod.splits)
  note n = for_each_channelFormat_nth[OF c]
  show "length (audioChannelFormats adm') = length (audioChannelFormats adm)"
    using n adm' by simp
  show "audioObjects adm' = audioObjects adm" using adm' by simp
  show "blockFormats_of adm' ci =
          map (\<lambda>b. fst (fix_interpolationLength_block b)) (blockFormats_of adm ci)"
    if "ci < length (audioChannelFormats adm)"
    using n adm' that by (simp add: blockFormats_of_def fix_interpolationLengths_blocks_map)
qed

lemma fix_interpolationLengths_blocks_warnings:
  "snd (fix_interpolationLengths_blocks bs) =
     concat (map (\<lambda>b. snd (fix_interpolationLength_block b)) bs)"
proof (induction bs)
  case Nil
  show ?case by simp
next
  case (Cons b rest)
  obtain b' w1 where p: "fix_interpolationLength_block b = (b', w1)" by force
  obtain r' w2 where r: "fix_interpolationLengths_blocks rest = (r', w2)" by force
  from Cons.IH p r show ?case by simp
qed

lemma snd_fix_interpolationLength_block:
  "snd (fix_interpolationLength_block b) =
     (case (rtime b, duration b, defined_interpolationLength b) of
        (Some r, Some d, Some il) \<Rightarrow>
          if il > d then [ContractedInterpolationLength (bf_id b) il d] else []
      | _ \<Rightarrow> [])"
  by (simp add: fix_interpolationLength_block_def split: option.splits)

lemma fst_fix_interpolationLength_block:
  "fst (fix_interpolationLength_block b) =
     (case (rtime b, duration b, defined_interpolationLength b) of
        (Some r, Some d, Some il) \<Rightarrow> if il > d then set_interpolationLength d b else b
      | _ \<Rightarrow> b)"
  by (simp add: fix_interpolationLength_block_def split: option.splits)

lemma fix_blockFormat_interpolationLengths_warnings:
  assumes "fix_blockFormat_interpolationLengths adm = (adm', ws)"
  shows "ws = concat (map (\<lambda>cf. concat (map (\<lambda>b.
             case (rtime b, duration b, defined_interpolationLength b) of
               (Some r, Some d, Some il) \<Rightarrow>
                 if il > d then [ContractedInterpolationLength (bf_id b) il d] else []
             | _ \<Rightarrow> [])
           (audioBlockFormats cf)))
         (audioChannelFormats adm))"
proof -
  have "ws = snd (for_each_channelFormat fix_interpolationLengths_blocks
                    (audioChannelFormats adm))"
    using assms by (auto simp: fix_blockFormat_interpolationLengths_def split: prod.splits)
  then show ?thesis
    by (simp add: for_each_channelFormat_warnings fix_interpolationLengths_blocks_warnings
        snd_fix_interpolationLength_block)
qed

text \<open>
  Claim C5, as the code has it. The pass skips a block whose \<open>rtime\<close> is unset, also
  when its \<open>duration\<close> and interpolation length are set: in \<open>rtime_unset_scene\<close> the
  block with \<open>duration = 5\<close> and \<open>interpolationLength = 8\<close> keeps both, so the claim
  for every block with a duration and an interpolation length fails there.
\<close>

theorem interpolationLengths_bounded_counterexample:
  "\<not> (\<forall>cf \<in> set (audioChannelFormats (fst (fix_blockFormat_interpolationLengths rtime_unset_scene))).
        \<forall>b \<in> set (audioBlockFormats cf).
          \<forall>d il. duration b = Some d
                \<and> has_interpolationLength b \<and> defined_interpolationLength b = Some il
              \<longrightarrow> il \<le> d)"
  by (simp add: rtime_unset_scene_def fix_blockFormat_interpolationLengths_def
      fix_interpolationLength_block_def defined_interpolationLength_def
      has_interpolationLength_def)

text \<open>
  Claim C5, amended, for the whole pass \<open>fix_blockFormat_interpolationLengths\<close>.
  The pass keeps the channel formats and the number of blocks of each, and for the
  block at every position:
  \<^item> if \<open>rtime\<close>, \<open>duration\<close> and an interpolation length are set and the interpolation
    length is greater than the duration, the block after the pass is the block with
    its interpolation length set to the duration;
  \<^item> in every other case the block is unchanged; in particular a block whose \<open>rtime\<close>
    is unset is skipped.
  After the pass every block with \<open>rtime\<close>, \<open>duration\<close> and an interpolation length set
  has \<open>interpolationLength \<le> duration\<close>. The warnings of the pass are, in the order of
  the channel formats and of their blocks, one \<open>ContractedInterpolationLength\<close> with the
  block id, the old value and the duration for every block that is contracted, and
  nothing else.
\<close>

theorem interpolationLengths_bounded:
  assumes "fix_blockFormat_interpolationLengths adm = (adm', ws)"
  shows "length (audioChannelFormats adm') = length (audioChannelFormats adm)
     \<and> (\<forall>ci < length (audioChannelFormats adm).
           length (blockFormats_of adm' ci) = length (blockFormats_of adm ci)
         \<and> (\<forall>i < length (blockFormats_of adm ci).
               (\<forall>r d il. rtime (blockFormats_of adm ci ! i) = Some r
                     \<and> duration (blockFormats_of adm ci ! i) = Some d
                     \<and> has_interpolationLength (blockFormats_of adm ci ! i)
                     \<and> defined_interpolationLength (blockFormats_of adm ci ! i) = Some il
                     \<and> il > d \<longrightarrow>
                   blockFormats_of adm' ci ! i =
                     set_interpolationLength d (blockFormats_of adm ci ! i)
                 \<and> defined_interpolationLength (blockFormats_of adm' ci ! i) = Some d)
             \<and> (\<not> (\<exists>r d il. rtime (blockFormats_of adm ci ! i) = Some r
                     \<and> duration (blockFormats_of adm ci ! i) = Some d
                     \<and> has_interpolationLength (blockFormats_of adm ci ! i)
                     \<and> defined_interpolationLength (blockFormats_of adm ci ! i) = Some il
                     \<and> il > d) \<longrightarrow>
                   blockFormats_of adm' ci ! i = blockFormats_of adm ci ! i)
             \<and> (rtime (blockFormats_of adm ci ! i) = None \<longrightarrow>
                   blockFormats_of adm' ci ! i = blockFormats_of adm ci ! i)))
     \<and> (\<forall>cf \<in> set (audioChannelFormats adm'). \<forall>b \<in> set (audioBlockFormats cf).
            \<forall>r d il. rtime b = Some r \<and> duration b = Some d
                \<and> has_interpolationLength b \<and> defined_interpolationLength b = Some il
              \<longrightarrow> il \<le> d)
     \<and> ws = concat (map (\<lambda>cf. concat (map (\<lambda>b.
             case (rtime b, duration b, defined_interpolationLength b) of
               (Some r, Some d, Some il) \<Rightarrow>
                 if il > d then [ContractedInterpolationLength (bf_id b) il d] else []
             | _ \<Rightarrow> [])
           (audioBlockFormats cf)))
         (audioChannelFormats adm))"
proof (intro conjI)
  note n = fix_blockFormat_interpolationLengths_nth[OF assms]
  show "length (audioChannelFormats adm') = length (audioChannelFormats adm)" by (rule n(1))
  show "\<forall>ci < length (audioChannelFormats adm).
           length (blockFormats_of adm' ci) = length (blockFormats_of adm ci)
         \<and> (\<forall>i < length (blockFormats_of adm ci).
               (\<forall>r d il. rtime (blockFormats_of adm ci ! i) = Some r
                     \<and> duration (blockFormats_of adm ci ! i) = Some d
                     \<and> has_interpolationLength (blockFormats_of adm ci ! i)
                     \<and> defined_interpolationLength (blockFormats_of adm ci ! i) = Some il
                     \<and> il > d \<longrightarrow>
                   blockFormats_of adm' ci ! i =
                     set_interpolationLength d (blockFormats_of adm ci ! i)
                 \<and> defined_interpolationLength (blockFormats_of adm' ci ! i) = Some d)
             \<and> (\<not> (\<exists>r d il. rtime (blockFormats_of adm ci ! i) = Some r
                     \<and> duration (blockFormats_of adm ci ! i) = Some d
                     \<and> has_interpolationLength (blockFormats_of adm ci ! i)
                     \<and> defined_interpolationLength (blockFormats_of adm ci ! i) = Some il
                     \<and> il > d) \<longrightarrow>
                   blockFormats_of adm' ci ! i = blockFormats_of adm ci ! i)
             \<and> (rtime (blockFormats_of adm ci ! i) = None \<longrightarrow>
                   blockFormats_of adm' ci ! i = blockFormats_of adm ci ! i))"
  proof (intro allI impI conjI)
    fix ci assume ci: "ci < length (audioChannelFormats adm)"
    note m = n(3)[OF ci]
    show "length (blockFormats_of adm' ci) = length (blockFormats_of adm ci)"
      using m by simp
    fix i assume i: "i < length (blockFormats_of adm ci)"
    let ?b = "blockFormats_of adm ci ! i"
    have e: "blockFormats_of adm' ci ! i = fst (fix_interpolationLength_block ?b)"
      using m i by simp
    {
      fix r d il
      assume h: "rtime ?b = Some r \<and> duration ?b = Some d \<and> has_interpolationLength ?b
                     \<and> defined_interpolationLength ?b = Some il \<and> il > d"
      then show "blockFormats_of adm' ci ! i = set_interpolationLength d ?b"
        unfolding e by (simp add: fst_fix_interpolationLength_block)
      with h show "defined_interpolationLength (blockFormats_of adm' ci ! i) = Some d"
        by (simp add: defined_interpolationLength_set)
    }
    {
      assume "\<not> (\<exists>r d il. rtime ?b = Some r \<and> duration ?b = Some d
                     \<and> has_interpolationLength ?b
                     \<and> defined_interpolationLength ?b = Some il \<and> il > d)"
      then show "blockFormats_of adm' ci ! i = ?b"
        unfolding e
        by (auto simp: fst_fix_interpolationLength_block has_interpolationLength_iff
            split: option.splits)
    }
    {
      assume "rtime ?b = None"
      then show "blockFormats_of adm' ci ! i = ?b"
        unfolding e by (simp add: fst_fix_interpolationLength_block)
    }
  qed
  show "\<forall>cf \<in> set (audioChannelFormats adm'). \<forall>b \<in> set (audioBlockFormats cf).
            \<forall>r d il. rtime b = Some r \<and> duration b = Some d
                \<and> has_interpolationLength b \<and> defined_interpolationLength b = Some il
              \<longrightarrow> il \<le> d"
  proof (intro ballI allI impI)
    fix cf b r d il
    assume cf: "cf \<in> set (audioChannelFormats adm')" and b: "b \<in> set (audioBlockFormats cf)"
      and t: "rtime b = Some r \<and> duration b = Some d
                \<and> has_interpolationLength b \<and> defined_interpolationLength b = Some il"
    from cf obtain ci where ci: "ci < length (audioChannelFormats adm')"
      and cf': "cf = audioChannelFormats adm' ! ci"
      by (auto simp: in_set_conv_nth)
    from ci n(1) have "ci < length (audioChannelFormats adm)" by simp
    from n(3)[OF this] cf' b
    obtain b0 where "b = fst (fix_interpolationLength_block b0)"
      by (auto simp: blockFormats_of_def)
    then have "fix_interpolationLength_block b0 = (b, snd (fix_interpolationLength_block b0))"
      by simp
    from fix_interpolationLength_block_bounded(4)[OF this] t show "il \<le> d" by simp
  qed
  show "ws = concat (map (\<lambda>cf. concat (map (\<lambda>b.
             case (rtime b, duration b, defined_interpolationLength b) of
               (Some r, Some d, Some il) \<Rightarrow>
                 if il > d then [ContractedInterpolationLength (bf_id b) il d] else []
             | _ \<Rightarrow> [])
           (audioBlockFormats cf)))
         (audioChannelFormats adm))"
    by (rule fix_blockFormat_interpolationLengths_warnings[OF assms])
qed

theorem interpolationLengths_bounded_witness:
  "fix_blockFormat_interpolationLengths mixed_interpolation_scene =
     (mixed_interpolation_scene\<lparr>audioChannelFormats :=
        [\<lparr>cf_id = ''AC_1'', audioBlockFormats =
           [\<lparr>bf_id = ''A'', rtime = Some 0, duration = Some 5,
             cls = AudioBlockFormatObjects \<lparr>flag = True, interpolationLength = Some 5\<rparr>\<rparr>,
            \<lparr>bf_id = ''U'', rtime = None, duration = Some 5,
             cls = AudioBlockFormatObjects \<lparr>flag = True, interpolationLength = Some 8\<rparr>\<rparr>]\<rparr>]\<rparr>,
      [ContractedInterpolationLength ''A'' 8 5])
   \<and> (5::rat) \<le> 5"
proof -
  let ?b' = "\<lparr>bf_id = ''A'', rtime = Some 0, duration = Some 5,
             cls = AudioBlockFormatObjects \<lparr>flag = True, interpolationLength = Some 5\<rparr>\<rparr>"
  let ?u = "\<lparr>bf_id = ''U'', rtime = None, duration = Some 5,
             cls = AudioBlockFormatObjects \<lparr>flag = True, interpolationLength = Some 8\<rparr>\<rparr>"
  let ?cf' = "\<lparr>cf_id = ''AC_1'', audioBlockFormats = [?b', ?u]\<rparr>"
  have h: "fix_blockFormat_interpolationLengths mixed_interpolation_scene =
     (mixed_interpolation_scene\<lparr>audioChannelFormats := [?cf']\<rparr>,
      [ContractedInterpolationLength ''A'' 8 5])"
    by (simp add: mixed_interpolation_scene_def fix_blockFormat_interpolationLengths_def
      fix_interpolationLength_block_def defined_interpolationLength_def
      set_interpolationLength_def)
  have "rtime ?b' = Some 0 \<and> duration ?b' = Some 5
      \<and> has_interpolationLength ?b' \<and> defined_interpolationLength ?b' = Some 5"
    by (simp add: defined_interpolationLength_def has_interpolationLength_def)
  with interpolationLengths_bounded[OF h, THEN conjunct2, THEN conjunct2, THEN conjunct1,
        rule_format, of ?cf' ?b' 0 5 5]
  have "(5::rat) \<le> 5" by simp
  with h show ?thesis by simp
qed

subsection \<open>Outcomes and loops\<close>

lemma warned_Nil [simp]: "warned [] r = r"
  by (cases r) simp_all

lemma warned_warned [simp]: "warned ws (warned ws' r) = warned (ws @ ws') r"
  by (cases r) simp_all

lemma warned_Done_iff:
  "warned ws r = Done s ws' \<longleftrightarrow> (\<exists>w. r = Done s w \<and> ws' = ws @ w)"
  by (cases r) auto

lemma and_then_Done_iff:
  "and_then r f = Done s ws \<longleftrightarrow>
     (\<exists>s1 w1 w2. r = Done s1 w1 \<and> f s1 = Done s w2 \<and> ws = w1 @ w2)"
  by (cases r) (auto simp: warned_Done_iff)

lemma lift_outcome_Done_iff:
  "lift_outcome put r = Done s ws \<longleftrightarrow> (\<exists>a. r = Done a ws \<and> s = put a)"
  by (cases r) auto

lemma and_then_warned: "and_then (warned ws r) f = warned ws (and_then r f)"
  by (cases r) simp_all

lemma and_then_assoc:
  "and_then (and_then r f) g = and_then r (\<lambda>s. and_then (f s) g)"
  by (cases r) (simp_all add: and_then_warned)

lemma for_each_append:
  "for_each (xs @ ys) body s = and_then (for_each xs body s) (for_each ys body)"
proof (induction xs arbitrary: s)
  case Nil
  show ?case by simp
next
  case (Cons x xs)
  have "for_each (xs @ ys) body = (\<lambda>s. and_then (for_each xs body s) (for_each ys body))"
    using Cons.IH by (rule ext)
  then show ?case by (simp add: and_then_assoc)
qed

lemma for_each_concat:
  "for_each (concat xss) body s = for_each xss (\<lambda>xs. for_each xs body) s"
proof (induction xss arbitrary: s)
  case Nil
  show ?case by simp
next
  case (Cons xs xss)
  have "for_each (concat xss) body = for_each xss (\<lambda>xs. for_each xs body)"
    using Cons.IH by (rule ext)
  then show ?case by (simp add: for_each_append)
qed

lemma for_each_map:
  "for_each (map g xs) body s = for_each xs (\<lambda>x. body (g x)) s"
proof (induction xs arbitrary: s)
  case Nil
  show ?case by simp
next
  case (Cons x xs)
  have "for_each (map g xs) body = for_each xs (\<lambda>x. body (g x))"
    using Cons.IH by (rule ext)
  then show ?case by simp
qed

lemma for_each_invariant:
  assumes "for_each xs body s = Done s' ws" and "I s"
    and "\<And>x t t' w. x \<in> set xs \<Longrightarrow> I t \<Longrightarrow> body x t = Done t' w \<Longrightarrow> I t'"
  shows "I s'"
  using assms
proof (induction xs arbitrary: s ws)
  case Nil
  then show ?case by simp
next
  case (Cons x xs)
  from Cons.prems(1) obtain s1 w1 w2 where b: "body x s = Done s1 w1"
    and r: "for_each xs body s1 = Done s' w2"
    by (auto simp: and_then_Done_iff)
  have "I s1" using Cons.prems(3)[OF _ Cons.prems(2) b] by simp
  show ?case
  proof (rule Cons.IH[OF r \<open>I s1\<close>])
    fix y t t' w
    assume "y \<in> set xs" "I t" "body y t = Done t' w"
    then show "I t'" using Cons.prems(3)[of y t t' w] by simp
  qed
qed

lemma for_each_establish:
  assumes "for_each xs body s = Done s' ws"
    and "\<And>x t t' w. x \<in> set xs \<Longrightarrow> body x t = Done t' w \<Longrightarrow> Q x t'"
    and "\<And>x y t t' w. x \<in> set xs \<Longrightarrow> y \<in> set xs \<Longrightarrow> Q x t \<Longrightarrow> body y t = Done t' w \<Longrightarrow> Q x t'"
  shows "\<forall>x \<in> set xs. Q x s'"
  using assms
proof (induction xs arbitrary: s ws)
  case Nil
  then show ?case by simp
next
  case (Cons x xs)
  from Cons.prems(1) obtain s1 w1 w2 where b: "body x s = Done s1 w1"
    and r: "for_each xs body s1 = Done s' w2"
    by (auto simp: and_then_Done_iff)
  have "Q x s1" using Cons.prems(2)[OF _ b] by simp
  have "Q x s'"
  proof (rule for_each_invariant[where I = "Q x", OF r \<open>Q x s1\<close>])
    fix y t t' w
    assume "y \<in> set xs" "Q x t" "body y t = Done t' w"
    then show "Q x t'" using Cons.prems(3)[of x y t t' w] by simp
  qed
  moreover have "\<forall>y \<in> set xs. Q y s'"
  proof (rule Cons.IH[OF r])
    fix y t t' w
    assume "y \<in> set xs" "body y t = Done t' w"
    then show "Q y t'" using Cons.prems(2)[of y t t' w] by simp
  next
    fix y z t t' w
    assume "y \<in> set xs" "z \<in> set xs" "Q y t" "body z t = Done t' w"
    then show "Q y t'" using Cons.prems(3)[of y z t t' w] by simp
  qed
  ultimately show ?case by simp
qed

lemma for_each_nothing:
  assumes "\<And>x. x \<in> set xs \<Longrightarrow> body x s = Done s []"
  shows "for_each xs body s = Done s []"
  using assms by (induction xs) simp_all

subsection \<open>What a clamp that returns has done\<close>

lemma clamp_start_Done:
  assumes "rtime b = Some r" and "duration b = Some d"
    and "clamp_blockFormat_start b obj = Done b1 w1"
  shows "\<exists>s. obj_start obj = Some s
           \<and> rtime b1 = Some (max r s) \<and> duration b1 = Some (r + d - max r s)
           \<and> (r < s \<longrightarrow> s < r + d)
           \<and> bf_id b1 = bf_id b
           \<and> defined_interpolationLength b1 =
                map_option (\<lambda>il. il - (max r s - r)) (defined_interpolationLength b)
           \<and> (s \<le> r \<longrightarrow> b1 = b \<and> w1 = [])"
proof -
  from assms obtain s where s: "obj_start obj = Some s"
    by (auto simp: clamp_blockFormat_start_def split: option.splits)
  show ?thesis
  proof (cases "r < s")
    case True
    then have m: "max r s = s" by simp
    from assms s True show ?thesis unfolding m
      by (auto simp: clamp_blockFormat_start_def Let_def defined_interpolationLength_set
          split: option.splits if_splits)
  next
    case False
    then have m: "max r s = r" by simp
    from assms s False show ?thesis unfolding m
      by (auto simp: clamp_blockFormat_start_def Let_def option.map_ident split: option.splits)
  qed
qed

lemma clamp_end_Done:
  assumes "rtime b = Some r" and "duration b = Some d"
    and "clamp_blockFormat_end b obj = Done b2 w2"
  shows "\<exists>s od. obj_start obj = Some s \<and> obj_duration obj = Some od
           \<and> rtime b2 = Some r \<and> duration b2 = Some (min (r + d) (s + od) - r)
           \<and> (s + od < r + d \<longrightarrow> r < s + od)
           \<and> bf_id b2 = bf_id b
           \<and> (defined_interpolationLength b2 = None) = (defined_interpolationLength b = None)
           \<and> (\<forall>il. defined_interpolationLength b = Some il \<longrightarrow>
                 (\<exists>il'. defined_interpolationLength b2 = Some il' \<and> il' \<le> il
                     \<and> (il \<le> d \<longrightarrow> il' \<le> min (r + d) (s + od) - r)))
           \<and> (r + d \<le> s + od \<longrightarrow> b2 = b \<and> w2 = [])"
proof -
  from assms obtain s od where s: "obj_start obj = Some s" "obj_duration obj = Some od"
    by (auto simp: clamp_blockFormat_end_def split: option.splits)
  show ?thesis
  proof (cases "s + od < r + d")
    case True
    then have m: "min (r + d) (s + od) = s + od" by simp
    from assms s True show ?thesis unfolding m
      by (auto simp: clamp_blockFormat_end_def Let_def defined_interpolationLength_set
          split: option.splits if_splits)
  next
    case False
    then have m: "min (r + d) (s + od) = r + d" by simp
    from assms s False show ?thesis unfolding m
      by (auto simp: clamp_blockFormat_end_def Let_def split: option.splits)
  qed
qed

lemma clamp_times_timed_Done:
  assumes "rtime b = Some r" and "duration b = Some d"
    and "clamp_blockFormat_times b obj = Done b' ws"
  shows "\<exists>s od. obj_start obj = Some s \<and> obj_duration obj = Some od
           \<and> rtime b' = Some (max r s)
           \<and> duration b' = Some (min (r + d) (s + od) - max r s)
           \<and> (r < s \<longrightarrow> s < r + d)
           \<and> (s + od < r + d \<longrightarrow> max r s < s + od)
           \<and> bf_id b' = bf_id b
           \<and> (defined_interpolationLength b' = None) = (defined_interpolationLength b = None)
           \<and> (\<forall>il. defined_interpolationLength b = Some il \<longrightarrow> il \<le> d \<longrightarrow>
                 (\<exists>il'. defined_interpolationLength b' = Some il'
                     \<and> il' \<le> min (r + d) (s + od) - max r s))"
proof -
  from assms obtain b1 w1 w2 where st: "clamp_blockFormat_start b obj = Done b1 w1"
    and en: "clamp_blockFormat_end b1 obj = Done b' w2"
    by (auto simp: clamp_blockFormat_times_def and_then_Done_iff)
  from clamp_start_Done[OF assms(1,2) st] obtain s where s: "obj_start obj = Some s"
    and r1: "rtime b1 = Some (max r s)" and d1: "duration b1 = Some (r + d - max r s)"
    and p1: "r < s \<longrightarrow> s < r + d" and id1: "bf_id b1 = bf_id b"
    and il1: "defined_interpolationLength b1 =
                map_option (\<lambda>il. il - (max r s - r)) (defined_interpolationLength b)"
    by blast
  from clamp_end_Done[OF r1 d1 en] s obtain od where od: "obj_duration obj = Some od"
    and r2: "rtime b' = Some (max r s)"
    and d2: "duration b' = Some (min (max r s + (r + d - max r s)) (s + od) - max r s)"
    and p2: "s + od < max r s + (r + d - max r s) \<longrightarrow> max r s < s + od"
    and id2: "bf_id b' = bf_id b1"
    and n2: "(defined_interpolationLength b' = None) = (defined_interpolationLength b1 = None)"
    and il2: "\<forall>il. defined_interpolationLength b1 = Some il \<longrightarrow>
                 (\<exists>il'. defined_interpolationLength b' = Some il' \<and> il' \<le> il
                     \<and> (il \<le> r + d - max r s \<longrightarrow>
                          il' \<le> min (max r s + (r + d - max r s)) (s + od) - max r s))"
    by auto
  have e: "max r s + (r + d - max r s) = r + d" by simp
  have il: "\<exists>il'. defined_interpolationLength b' = Some il'
                     \<and> il' \<le> min (r + d) (s + od) - max r s"
    if "defined_interpolationLength b = Some il" "il \<le> d" for il
  proof -
    from that il1 have "defined_interpolationLength b1 = Some (il - (max r s - r))" by simp
    moreover have "il - (max r s - r) \<le> r + d - max r s" using that(2) by simp
    ultimately show ?thesis using il2 unfolding e by blast
  qed
  from s od r2 d2 p1 p2 id1 id2 n2 il1 il show ?thesis unfolding e by auto
qed

lemma settled_timed_iff:
  assumes "rtime b = Some r" and "duration b = Some d"
  shows "settled obj b \<longleftrightarrow>
           (\<exists>s od. obj_start obj = Some s \<and> obj_duration obj = Some od
               \<and> s \<le> r \<and> r + d \<le> s + od)"
proof
  assume "settled obj b"
  then have c: "clamp_blockFormat_times b obj = Done b []" by (simp add: settled_def)
  from clamp_times_timed_Done[OF assms c] assms obtain s od where
    "obj_start obj = Some s" "obj_duration obj = Some od"
    "r = max r s" "d = min (r + d) (s + od) - max r s"
    by auto
  moreover from this have "s \<le> r" "r + d \<le> s + od" by linarith+
  ultimately show "\<exists>s od. obj_start obj = Some s \<and> obj_duration obj = Some od
               \<and> s \<le> r \<and> r + d \<le> s + od" by blast
next
  assume "\<exists>s od. obj_start obj = Some s \<and> obj_duration obj = Some od
               \<and> s \<le> r \<and> r + d \<le> s + od"
  with assms show "settled obj b"
    by (auto simp: settled_def clamp_blockFormat_times_def clamp_blockFormat_start_def
        clamp_blockFormat_end_def Let_def)
qed

lemma clamp_times_untimed_Done:
  assumes "rtime b = None \<or> duration b = None"
    and "clamp_blockFormat_times b obj = Done b' ws"
  shows "rtime b' = rtime b \<and> duration b' = duration b \<and> bf_id b' = bf_id b
       \<and> (defined_interpolationLength b = None \<longrightarrow> b' = b \<and> ws = [])
       \<and> (\<forall>il. defined_interpolationLength b = Some il \<longrightarrow>
             (\<exists>od. obj_duration obj = Some od
                 \<and> defined_interpolationLength b' = Some (min il od)
                 \<and> (il \<le> od \<longrightarrow> b' = b \<and> ws = [])))"
proof (cases "defined_interpolationLength b")
  case None
  with assms show ?thesis
    by (auto simp: clamp_blockFormat_times_def clamp_blockFormat_interpolationLength_def)
next
  case (Some il)
  with assms obtain od where od: "obj_duration obj = Some od"
    by (auto simp: clamp_blockFormat_times_def clamp_blockFormat_interpolationLength_def
        split: option.splits)
  show ?thesis
  proof (cases "il > od")
    case True
    then have "min il od = od" by simp
    with assms Some od True show ?thesis
      by (auto simp: clamp_blockFormat_times_def clamp_blockFormat_interpolationLength_def
          defined_interpolationLength_set)
  next
    case False
    then have "min il od = il" by simp
    with assms Some od False show ?thesis
      by (auto simp: clamp_blockFormat_times_def clamp_blockFormat_interpolationLength_def)
  qed
qed

lemma settled_untimed_iff:
  assumes "rtime b = None \<or> duration b = None"
  shows "settled obj b \<longleftrightarrow>
           (\<forall>il. defined_interpolationLength b = Some il \<longrightarrow>
              (\<exists>od. obj_duration obj = Some od \<and> il \<le> od))"
proof
  assume "settled obj b"
  then have c: "clamp_blockFormat_times b obj = Done b []" by (simp add: settled_def)
  show "\<forall>il. defined_interpolationLength b = Some il \<longrightarrow>
              (\<exists>od. obj_duration obj = Some od \<and> il \<le> od)"
  proof (intro allI impI)
    fix il assume il: "defined_interpolationLength b = Some il"
    with clamp_times_untimed_Done[OF assms c] obtain od where
      "obj_duration obj = Some od" "Some il = Some (min il od)" by auto
    moreover from this have "il \<le> od" by (simp add: min_def split: if_splits)
    ultimately show "\<exists>od. obj_duration obj = Some od \<and> il \<le> od" by blast
  qed
next
  assume "\<forall>il. defined_interpolationLength b = Some il \<longrightarrow>
              (\<exists>od. obj_duration obj = Some od \<and> il \<le> od)"
  with assms show "settled obj b"
    by (auto simp: settled_def clamp_blockFormat_times_def
        clamp_blockFormat_interpolationLength_def split: option.splits)
qed

lemma clamp_times_settles:
  assumes "clamp_blockFormat_times b obj = Done b' ws"
  shows "settled obj b'"
proof (cases "rtime b = None \<or> duration b = None")
  case True
  from clamp_times_untimed_Done[OF True assms]
  have t: "rtime b' = None \<or> duration b' = None"
    and il: "\<forall>il. defined_interpolationLength b = Some il \<longrightarrow>
             (\<exists>od. obj_duration obj = Some od
                 \<and> defined_interpolationLength b' = Some (min il od))"
    and n: "defined_interpolationLength b = None \<longrightarrow> b' = b"
    using True by auto
  show ?thesis unfolding settled_untimed_iff[OF t]
  proof (intro allI impI)
    fix il' assume a: "defined_interpolationLength b' = Some il'"
    then obtain il where "defined_interpolationLength b = Some il"
      using n by (cases "defined_interpolationLength b") auto
    with il a obtain od where "obj_duration obj = Some od" "il' = min il od" by auto
    then show "\<exists>od. obj_duration obj = Some od \<and> il' \<le> od" by auto
  qed
next
  case False
  then obtain r d where t: "rtime b = Some r" "duration b = Some d" by auto
  from clamp_times_timed_Done[OF t assms] obtain s od where
    o: "obj_start obj = Some s" "obj_duration obj = Some od"
    and t': "rtime b' = Some (max r s)" "duration b' = Some (min (r + d) (s + od) - max r s)"
    by blast
  show ?thesis unfolding settled_timed_iff[OF t'] using o by simp
qed

lemma clamp_times_keeps_settled:
  assumes "clamp_blockFormat_times b obj2 = Done b' ws" and "settled obj b"
  shows "settled obj b'"
proof (cases "rtime b = None \<or> duration b = None")
  case True
  from clamp_times_untimed_Done[OF True assms(1)]
  have t: "rtime b' = None \<or> duration b' = None"
    and il: "\<forall>il. defined_interpolationLength b = Some il \<longrightarrow>
             (\<exists>od. obj_duration obj2 = Some od
                 \<and> defined_interpolationLength b' = Some (min il od))"
    and n: "defined_interpolationLength b = None \<longrightarrow> b' = b"
    using True by auto
  show ?thesis unfolding settled_untimed_iff[OF t]
  proof (intro allI impI)
    fix il' assume a: "defined_interpolationLength b' = Some il'"
    then obtain il where i: "defined_interpolationLength b = Some il"
      using n by (cases "defined_interpolationLength b") auto
    with il a obtain od2 where "il' = min il od2" by auto
    moreover from assms(2) i obtain od where "obj_duration obj = Some od" "il \<le> od"
      unfolding settled_untimed_iff[OF True] by blast
    ultimately show "\<exists>od. obj_duration obj = Some od \<and> il' \<le> od" by auto
  qed
next
  case False
  then obtain r d where t: "rtime b = Some r" "duration b = Some d" by auto
  from clamp_times_timed_Done[OF t assms(1)] obtain s2 od2 where
    t': "rtime b' = Some (max r s2)" "duration b' = Some (min (r + d) (s2 + od2) - max r s2)"
    by blast
  from assms(2) obtain s od where o: "obj_start obj = Some s" "obj_duration obj = Some od"
    and i: "s \<le> r" "r + d \<le> s + od"
    unfolding settled_timed_iff[OF t] by blast
  show ?thesis unfolding settled_timed_iff[OF t'] using o i by auto
qed


subsection \<open>Pass 3: the blocks lie inside the audioObjects\<close>

lemma clamp_blockFormats_Done:
  "clamp_blockFormats obj bs = Done bs' ws \<Longrightarrow>
     list_all2 (\<lambda>b b'. \<exists>w. clamp_blockFormat_times b obj = Done b' w) bs bs'"
proof (induction bs arbitrary: bs' ws)
  case Nil
  then show ?case by simp
next
  case (Cons b bs)
  from Cons.prems obtain b1 w1 r1 w2 where b: "clamp_blockFormat_times b obj = Done b1 w1"
    and r: "clamp_blockFormats obj bs = Done r1 w2" and bs': "bs' = b1 # r1"
    by (auto simp: warned_Done_iff lift_outcome_Done_iff split: outcome.splits)
  from Cons.IH[OF r] b bs' show ?case by auto
qed

lemma clamp_channelFormat_Done:
  assumes "clamp_channelFormat obj ci adm = Done adm' ws"
  shows "audioObjects adm' = audioObjects adm"
    and "length (audioChannelFormats adm') = length (audioChannelFormats adm)"
    and "cj \<noteq> ci \<Longrightarrow> blockFormats_of adm' cj = blockFormats_of adm cj"
    and "ci < length (audioChannelFormats adm) \<Longrightarrow>
           list_all2 (\<lambda>b b'. \<exists>w. clamp_blockFormat_times b obj = Done b' w)
             (blockFormats_of adm ci) (blockFormats_of adm' ci)"
proof -
  show "audioObjects adm' = audioObjects adm"
    using assms
    by (auto simp: clamp_channelFormat_def Let_def lift_outcome_Done_iff split: if_splits)
  show "length (audioChannelFormats adm') = length (audioChannelFormats adm)"
    using assms
    by (auto simp: clamp_channelFormat_def Let_def lift_outcome_Done_iff split: if_splits)
  show "blockFormats_of adm' cj = blockFormats_of adm cj" if "cj \<noteq> ci"
    using assms that
    by (auto simp: clamp_channelFormat_def Let_def lift_outcome_Done_iff blockFormats_of_def
        split: if_splits)
  show "list_all2 (\<lambda>b b'. \<exists>w. clamp_blockFormat_times b obj = Done b' w)
             (blockFormats_of adm ci) (blockFormats_of adm' ci)"
    if "ci < length (audioChannelFormats adm)"
    using assms that
    by (auto simp: clamp_channelFormat_def Let_def lift_outcome_Done_iff blockFormats_of_def
        dest: clamp_blockFormats_Done)
qed

lemma list_all2_source:
  "list_all2 P xs ys \<Longrightarrow> y \<in> set ys \<Longrightarrow> \<exists>x \<in> set xs. P x y"
  by (induction rule: list_all2_induct) auto

lemma clamp_channelFormat_settles:
  assumes "clamp_channelFormat obj ci adm = Done adm' ws"
  shows "channel_settled (obj, ci) adm'"
  unfolding channel_settled_def
proof (intro impI ballI)
  fix b' assume "snd (obj, ci) < length (audioChannelFormats adm')"
    and b': "b' \<in> set (blockFormats_of adm' (snd (obj, ci)))"
  then have ci: "ci < length (audioChannelFormats adm)"
    using clamp_channelFormat_Done(2)[OF assms] by simp
  from list_all2_source[OF clamp_channelFormat_Done(4)[OF assms ci], of b'] b'
  obtain b w where "clamp_blockFormat_times b obj = Done b' w"
    by auto
  then show "settled (fst (obj, ci)) b'" by (simp add: clamp_times_settles)
qed

lemma clamp_channelFormat_keeps_settled:
  assumes "clamp_channelFormat obj2 cj adm = Done adm' ws"
    and "channel_settled (obj, ci) adm"
  shows "channel_settled (obj, ci) adm'"
  unfolding channel_settled_def
proof (intro impI ballI)
  fix b' assume "snd (obj, ci) < length (audioChannelFormats adm')"
    and b': "b' \<in> set (blockFormats_of adm' (snd (obj, ci)))"
  then have ci: "ci < length (audioChannelFormats adm)"
    using clamp_channelFormat_Done(2)[OF assms(1)] by simp
  show "settled (fst (obj, ci)) b'"
  proof (cases "ci = cj")
    case True
    from clamp_channelFormat_Done(4)[OF assms(1)] ci True
    have "list_all2 (\<lambda>b b'. \<exists>w. clamp_blockFormat_times b obj2 = Done b' w)
             (blockFormats_of adm ci) (blockFormats_of adm' ci)" by simp
    from list_all2_source[OF this, of b'] b'
    obtain b w where "b \<in> set (blockFormats_of adm ci)"
      and "clamp_blockFormat_times b obj2 = Done b' w"
      by auto
    with assms(2) ci show ?thesis
      by (auto simp: channel_settled_def intro: clamp_times_keeps_settled)
  next
    case False
    from clamp_channelFormat_Done(3)[OF assms(1) False] b' assms(2) ci show ?thesis
      by (simp add: channel_settled_def)
  qed
qed

lemma fix_blockFormat_times_for_audioObjects_flat:
  "fix_blockFormat_times_for_audioObjects select_pack_mapping adm =
     for_each (selected_channelFormats select_pack_mapping (audioObjects adm))
       (\<lambda>sel. clamp_channelFormat (fst sel) (snd sel)) adm"
proof -
  let ?B = "\<lambda>sel. clamp_channelFormat (fst sel) (snd sel)"
  let ?h = "\<lambda>audioObject.
        if obj_start audioObject = None \<or> obj_duration audioObject = None then []
        else map (Pair audioObject) (concat (select_pack_mapping audioObject))"
  have "(\<lambda>audioObject adm1.
          if obj_start audioObject = None \<or> obj_duration audioObject = None
          then Done adm1 []
          else for_each (select_pack_mapping audioObject)
                 (\<lambda>state. for_each state (clamp_channelFormat audioObject)) adm1)
      = (\<lambda>audioObject. for_each (?h audioObject) ?B)"
    by (intro ext) (simp add: for_each_map for_each_concat)
  then show ?thesis
    by (simp add: fix_blockFormat_times_for_audioObjects_def selected_channelFormats_def
        for_each_concat for_each_map)
qed


lemma fix_blockFormat_times_for_audioObjects_settles:
  assumes "fix_blockFormat_times_for_audioObjects select_pack_mapping adm = Done adm' ws"
  shows "\<forall>sel \<in> set (selected_channelFormats select_pack_mapping (audioObjects adm)).
           channel_settled sel adm'"
proof (rule for_each_establish[OF assms[unfolded fix_blockFormat_times_for_audioObjects_flat]])
  fix x t t' w
  assume "clamp_channelFormat (fst x) (snd x) t = Done t' w"
  from clamp_channelFormat_settles[OF this] show "channel_settled x t'" by simp
next
  fix x y t t' w
  assume "channel_settled x t" "clamp_channelFormat (fst y) (snd y) t = Done t' w"
  from clamp_channelFormat_keeps_settled[OF this(2), of "fst x" "snd x"] this(1)
  show "channel_settled x t'" by simp
qed



subsection \<open>The entry point runs the three passes once, in order\<close>

lemmas run_defs =
  fix_blockFormat_timings_def fix_blockFormat_durations_def fix_duration_pair_def
  fix_blockFormat_interpolationLengths_def fix_interpolationLength_block_def
  fix_blockFormat_times_for_audioObjects_def clamp_channelFormat_def
  clamp_blockFormat_times_def clamp_blockFormat_start_def clamp_blockFormat_end_def
  clamp_blockFormat_interpolationLength_def defined_interpolationLength_def
  set_interpolationLength_def Let_def


lemma warnings_of_warned [simp]: "warnings_of (warned ws r) = ws @ warnings_of r"
  by (cases r) simp_all

lemma warnings_of_lift_outcome [simp]: "warnings_of (lift_outcome put r) = warnings_of r"
  by (cases r) simp_all











subsection \<open>Running the entry point a second time\<close>

text \<open>
  Claim C7, as the code has it. In \<open>backwards_scene\<close> the block \<open>P\<close> (\<open>rtime = 10\<close>)
  comes before the block \<open>A\<close> (\<open>rtime = 0\<close>, \<open>duration = 20\<close>), and the object starts at
  5. The first run sets the duration of \<open>P\<close> to \<open>0 - 10\<close> and then delays \<open>A\<close> to
  \<open>rtime = 5\<close>; it returns. The second run finds \<open>rtime A - rtime P = - 5\<close>, emits a
  warning and changes the duration of \<open>P\<close> again.
\<close>

theorem timings_second_run_counterexample:
  "fix_blockFormat_timings (\<lambda>audioObject. [[0]]) backwards_scene =
     Done backwards_scene_once
       [DurationChanged ''contracted'' ''P'' 1 (- 10), DelayedRtime ''A'' ''AO_1'' 5]
 \<and> fix_blockFormat_timings (\<lambda>audioObject. [[0]]) backwards_scene_once =
     Done backwards_scene_twice [DurationChanged ''expanded'' ''P'' (- 10) (- 5)]
 \<and> backwards_scene_twice \<noteq> backwards_scene_once"
  by (simp add: backwards_scene_def backwards_scene_once_def backwards_scene_twice_def run_defs)

subsection \<open>Blocks without timing, and blocks with the same times\<close>

lemma untimed_nonneg_duration:
  "rtime b = None \<or> duration b = None \<Longrightarrow> nonneg_duration b"
  by (auto simp: nonneg_duration_def split: option.splits)

lemma untimed_interpolationLength_bounded:
  "rtime b = None \<or> duration b = None \<Longrightarrow> interpolationLength_bounded b"
  by (auto simp: interpolationLength_bounded_def split: option.splits)

lemma untimed_meets:
  "rtime a = None \<or> duration a = None \<or> rtime b = None \<or> duration b = None \<Longrightarrow> meets a b"
  by (auto simp: meets_def split: option.splits)

lemma nonneg_duration_cong:
  "rtime b' = rtime b \<Longrightarrow> duration b' = duration b \<Longrightarrow>
     nonneg_duration b' = nonneg_duration b"
  by (simp add: nonneg_duration_def)

subsection \<open>Pass 1 on well-timed blocks\<close>

lemma fix_duration_pair_nonneg:
  "nonneg_duration a \<Longrightarrow> rtime_ordered a b \<Longrightarrow> nonneg_duration (fst (fix_duration_pair a b))"
  by (auto simp: nonneg_duration_def rtime_ordered_def fix_duration_pair_def Let_def
      split: option.splits)

lemma fix_durations_blocks_nonneg:
  "rtimes_ordered bs \<Longrightarrow> list_all nonneg_duration bs \<Longrightarrow>
     list_all nonneg_duration (fst (fix_durations_blocks bs))"
proof (induction bs rule: fix_durations_blocks.induct)
  case (1 a b rest)
  obtain a' w1 where p: "fix_duration_pair a b = (a', w1)" by force
  obtain r' w2 where r: "fix_durations_blocks (b # rest) = (r', w2)" by force
  from "1.prems" have "nonneg_duration (fst (fix_duration_pair a b))"
    by (simp add: fix_duration_pair_nonneg)
  moreover from "1.IH"[OF refl p[symmetric]] "1.prems" r have "list_all nonneg_duration r'"
    by simp
  ultimately show ?case using p r by simp
qed simp_all

subsection \<open>Pass 2 keeps the times\<close>

lemma contiguous_map:
  assumes "\<And>b. rtime (f b) = rtime b" and "\<And>b. duration (f b) = duration b"
  shows "contiguous (map f bs) = contiguous bs"
  by (induction bs rule: contiguous.induct) (simp_all add: meets_def assms)

lemma fix_interpolationLength_block_fst:
  "rtime (fst (fix_interpolationLength_block b)) = rtime b"
  "duration (fst (fix_interpolationLength_block b)) = duration b"
  "interpolationLength_bounded (fst (fix_interpolationLength_block b))"
  by (auto simp: fix_interpolationLength_block_def interpolationLength_bounded_def
      defined_interpolationLength_set split: option.splits)

lemma fix_interpolationLength_blocks_steady:
  assumes "contiguous bs" and "list_all nonneg_duration bs"
  shows "steady (map (\<lambda>b. fst (fix_interpolationLength_block b)) bs)"
proof -
  let ?f = "\<lambda>b. fst (fix_interpolationLength_block b)"
  have "contiguous (map ?f bs)"
    using assms(1) by (simp add: contiguous_map fix_interpolationLength_block_fst)
  moreover have "nonneg_duration (?f b)" if "b \<in> set bs" for b
  proof -
    have "nonneg_duration (?f b) = nonneg_duration b"
      by (rule nonneg_duration_cong) (rule fix_interpolationLength_block_fst)+
    with assms(2) that show ?thesis by (simp add: list_all_iff)
  qed
  moreover have "interpolationLength_bounded (?f b)" for b
    by (rule fix_interpolationLength_block_fst)
  ultimately show ?thesis by (simp add: steady_def list_all_iff)
qed

subsection \<open>Pass 3 keeps steady blocks steady\<close>

lemma clamp_times_nonneg:
  assumes "clamp_blockFormat_times b obj = Done b' ws" and "nonneg_duration b"
  shows "nonneg_duration b'"
proof (cases "rtime b = None \<or> duration b = None")
  case True
  from clamp_times_untimed_Done[OF True assms(1)] True
  have "rtime b' = None \<or> duration b' = None" by auto
  then show ?thesis by (rule untimed_nonneg_duration)
next
  case False
  then obtain r d where t: "rtime b = Some r" "duration b = Some d" by auto
  with assms(2) have d: "0 \<le> d" by (simp add: nonneg_duration_def)
  from clamp_times_timed_Done[OF t assms(1)] obtain s od where
    t': "rtime b' = Some (max r s)" "duration b' = Some (min (r + d) (s + od) - max r s)"
    and p: "r < s \<longrightarrow> s < r + d" "s + od < r + d \<longrightarrow> max r s < s + od"
    by (elim exE conjE) (rule that)
  from p d have "0 \<le> min (r + d) (s + od) - max r s" by (auto simp: min_def max_def)
  with t' show ?thesis by (simp add: nonneg_duration_def)
qed

lemma clamp_times_bounded:
  assumes "clamp_blockFormat_times b obj = Done b' ws" and "interpolationLength_bounded b"
  shows "interpolationLength_bounded b'"
proof (cases "rtime b = None \<or> duration b = None")
  case True
  from clamp_times_untimed_Done[OF True assms(1)] True
  have "rtime b' = None \<or> duration b' = None" by auto
  then show ?thesis by (rule untimed_interpolationLength_bounded)
next
  case False
  then obtain r d where t: "rtime b = Some r" "duration b = Some d" by auto
  from clamp_times_timed_Done[OF t assms(1)] obtain s od where
    t': "rtime b' = Some (max r s)" "duration b' = Some (min (r + d) (s + od) - max r s)"
    and n: "(defined_interpolationLength b' = None) = (defined_interpolationLength b = None)"
    and il: "\<forall>il. defined_interpolationLength b = Some il \<longrightarrow> il \<le> d \<longrightarrow>
                 (\<exists>il'. defined_interpolationLength b' = Some il'
                     \<and> il' \<le> min (r + d) (s + od) - max r s)"
    by (elim exE conjE) (rule that)
  show ?thesis
  proof (cases "defined_interpolationLength b")
    case None
    with n t' show ?thesis by (simp add: interpolationLength_bounded_def)
  next
    case (Some il0)
    with assms(2) t have "il0 \<le> d" by (simp add: interpolationLength_bounded_def)
    with il Some t' show ?thesis by (auto simp: interpolationLength_bounded_def)
  qed
qed

lemma clamp_times_meets:
  assumes "clamp_blockFormat_times a obj = Done a' wa"
    and "clamp_blockFormat_times b obj = Done b' wb"
    and "meets a b" and "nonneg_duration a" and "nonneg_duration b"
  shows "meets a' b'"
proof (cases "rtime a = None \<or> duration a = None")
  case True
  from clamp_times_untimed_Done[OF True assms(1)] True
  have "rtime a' = None \<or> duration a' = None" by auto
  then have "rtime a' = None \<or> duration a' = None \<or> rtime b' = None \<or> duration b' = None"
    by blast
  then show ?thesis by (rule untimed_meets)
next
  case False
  then obtain ra da where ta: "rtime a = Some ra" "duration a = Some da" by auto
  show ?thesis
  proof (cases "rtime b = None \<or> duration b = None")
    case True
    from clamp_times_untimed_Done[OF True assms(2)] True
    have "rtime b' = None \<or> duration b' = None" by auto
    then have "rtime a' = None \<or> duration a' = None \<or> rtime b' = None \<or> duration b' = None"
      by blast
    then show ?thesis by (rule untimed_meets)
  next
    case False
    then obtain rb db where tb: "rtime b = Some rb" "duration b = Some db" by auto
    from assms(3,4,5) ta tb have m: "rb = ra + da" and da: "0 \<le> da" and db: "0 \<le> db"
      by (simp_all add: meets_def nonneg_duration_def)
    from clamp_times_timed_Done[OF ta assms(1)] obtain s od where
      o: "obj_start obj = Some s" "obj_duration obj = Some od"
      and a': "rtime a' = Some (max ra s)" "duration a' = Some (min (ra + da) (s + od) - max ra s)"
      and pa: "ra < s \<longrightarrow> s < ra + da"
      by (elim exE conjE) (rule that)
    from clamp_times_timed_Done[OF tb assms(2)] obtain s2 od2 where
      o2: "obj_start obj = Some s2" "obj_duration obj = Some od2"
      and b2: "rtime b' = Some (max rb s2)"
        "duration b' = Some (min (rb + db) (s2 + od2) - max rb s2)"
      and pb2: "s2 + od2 < rb + db \<longrightarrow> max rb s2 < s2 + od2"
      by (elim exE conjE) (rule that)
    from o o2 have e: "s2 = s" "od2 = od" by simp_all
    note b' = b2[unfolded e] and pb = pb2[unfolded e]
    have 1: "s \<le> rb" using pa da m by linarith
    then have mx: "max rb s = rb" by simp
    have 2: "rb \<le> s + od" using pb db unfolding mx by linarith
    have 3: "min (ra + da) (s + od) = rb" using 2 m by simp
    have "rtime b' = Some rb" using b'(1) mx by simp
    moreover have "duration a' = Some (rb - max ra s)" using a'(2) 3 by simp
    ultimately show ?thesis using a'(1) by (simp add: meets_def split: option.splits)
  qed
qed

lemma clamp_all_contiguous:
  assumes "list_all2 (\<lambda>b b'. \<exists>w. clamp_blockFormat_times b obj = Done b' w) bs bs'"
    and "contiguous bs" and "list_all nonneg_duration bs"
  shows "contiguous bs'"
  using assms
proof (induction bs arbitrary: bs' rule: contiguous.induct)
  case (1 a b rest)
  from "1.prems"(1) obtain a' b' rest' where bs': "bs' = a' # b' # rest'"
    and a: "\<exists>w. clamp_blockFormat_times a obj = Done a' w"
    and b: "\<exists>w. clamp_blockFormat_times b obj = Done b' w"
    and r: "list_all2 (\<lambda>b b'. \<exists>w. clamp_blockFormat_times b obj = Done b' w)
              (b # rest) (b' # rest')"
    by (auto simp: list_all2_Cons1)
  from a b "1.prems"(2,3) have "meets a' b'"
    by (auto intro: clamp_times_meets)
  moreover from "1.IH"[OF r] "1.prems"(2,3) have "contiguous (b' # rest')" by simp
  ultimately show ?case using bs' by simp
qed (auto simp: list_all2_Cons1)

lemma clamp_all_steady:
  assumes "list_all2 (\<lambda>b b'. \<exists>w. clamp_blockFormat_times b obj = Done b' w) bs bs'"
    and "steady bs"
  shows "steady bs'"
proof -
  from assms(2) have c: "contiguous bs" and n: "list_all nonneg_duration bs"
    and i: "list_all interpolationLength_bounded bs" by (simp_all add: steady_def)
  have "contiguous bs'" using clamp_all_contiguous[OF assms(1) c n] .
  moreover have "list_all nonneg_duration bs'"
    unfolding list_all_iff
  proof
    fix b' assume "b' \<in> set bs'"
    from list_all2_source[OF assms(1) this] n show "nonneg_duration b'"
      by (auto simp: list_all_iff intro: clamp_times_nonneg)
  qed
  moreover have "list_all interpolationLength_bounded bs'"
    unfolding list_all_iff
  proof
    fix b' assume "b' \<in> set bs'"
    from list_all2_source[OF assms(1) this] i show "interpolationLength_bounded b'"
      by (auto simp: list_all_iff intro: clamp_times_bounded)
  qed
  ultimately show ?thesis by (simp add: steady_def)
qed

subsection \<open>The three passes keep a document steady\<close>

lemma steady_scene_iff:
  "steady_scene adm \<longleftrightarrow>
     (\<forall>ci < length (audioChannelFormats adm). steady (blockFormats_of adm ci))"
  by (simp add: steady_scene_def list_all_length blockFormats_of_def)

lemma well_timed_iff:
  "well_timed adm \<longleftrightarrow>
     (\<forall>ci < length (audioChannelFormats adm).
        list_all nonneg_duration (blockFormats_of adm ci)
      \<and> rtimes_ordered (blockFormats_of adm ci))"
  by (simp add: well_timed_def list_all_length blockFormats_of_def)

lemma well_timed_steady_after_two_passes:
  assumes "well_timed adm"
    and "fix_blockFormat_durations adm = (adm1, ws1)"
    and "fix_blockFormat_interpolationLengths adm1 = (adm2, ws2)"
  shows "steady_scene adm2" and "audioObjects adm2 = audioObjects adm"
proof -
  note d = fix_blockFormat_durations_nth[OF assms(2)]
  note i = fix_blockFormat_interpolationLengths_nth[OF assms(3)]
  show "audioObjects adm2 = audioObjects adm" using d(2) i(2) by simp
  show "steady_scene adm2"
    unfolding steady_scene_iff
  proof (intro allI impI)
    fix ci assume "ci < length (audioChannelFormats adm2)"
    then have c1: "ci < length (audioChannelFormats adm1)"
      and c0: "ci < length (audioChannelFormats adm)"
      using d(1) i(1) by simp_all
    let ?bs = "blockFormats_of adm ci"
    from assms(1) c0 have w: "list_all nonneg_duration ?bs" "rtimes_ordered ?bs"
      by (simp_all add: well_timed_iff)
    obtain bs1 w1 where f: "fix_durations_blocks ?bs = (bs1, w1)" by force
    then have b1: "blockFormats_of adm1 ci = bs1" using d(3)[OF c0] by simp
    have "contiguous bs1" using fix_durations_blocks_contiguous[OF f] .
    moreover have "list_all nonneg_duration bs1"
      using fix_durations_blocks_nonneg[OF w(2,1)] f by simp
    ultimately have "steady (map (\<lambda>b. fst (fix_interpolationLength_block b)) bs1)"
      by (rule fix_interpolationLength_blocks_steady)
    then show "steady (blockFormats_of adm2 ci)" using i(3)[OF c1] b1 by simp
  qed
qed

lemma clamp_channelFormat_steady:
  assumes "clamp_channelFormat obj ci adm = Done adm' ws" and "steady_scene adm"
  shows "steady_scene adm'"
  unfolding steady_scene_iff
proof (intro allI impI)
  fix cj assume "cj < length (audioChannelFormats adm')"
  then have cj: "cj < length (audioChannelFormats adm)"
    using clamp_channelFormat_Done(2)[OF assms(1)] by simp
  with assms(2) have s: "steady (blockFormats_of adm cj)" by (simp add: steady_scene_iff)
  show "steady (blockFormats_of adm' cj)"
  proof (cases "cj = ci")
    case True
    with clamp_channelFormat_Done(4)[OF assms(1)] cj s show ?thesis
      by (auto intro: clamp_all_steady)
  next
    case False
    with clamp_channelFormat_Done(3)[OF assms(1)] s show ?thesis by simp
  qed
qed

lemma fix_blockFormat_times_for_audioObjects_steady:
  assumes "fix_blockFormat_times_for_audioObjects select_pack_mapping adm = Done adm' ws"
    and "steady_scene adm"
  shows "steady_scene adm'" and "audioObjects adm' = audioObjects adm"
proof -
  note f = assms(1)[unfolded fix_blockFormat_times_for_audioObjects_flat]
  show "steady_scene adm'"
    by (rule for_each_invariant[where I = steady_scene, OF f assms(2)])
       (rule clamp_channelFormat_steady)
  show "audioObjects adm' = audioObjects adm"
    by (rule for_each_invariant[where I = "\<lambda>t. audioObjects t = audioObjects adm", OF f])
       (simp_all add: clamp_channelFormat_Done(1))
qed

subsection \<open>The three passes leave a steady, settled document alone\<close>

lemma meets_fix_duration_pair: "meets a b \<Longrightarrow> fix_duration_pair a b = (a, [])"
  by (auto simp: meets_def fix_duration_pair_def Let_def split: option.splits)

lemma contiguous_fix_durations_blocks:
  "contiguous bs \<Longrightarrow> fix_durations_blocks bs = (bs, [])"
  by (induction bs rule: fix_durations_blocks.induct) (simp_all add: meets_fix_duration_pair)

lemma bounded_fix_interpolationLength_block:
  "interpolationLength_bounded b \<Longrightarrow> fix_interpolationLength_block b = (b, [])"
  by (auto simp: interpolationLength_bounded_def fix_interpolationLength_block_def
      split: option.splits)

lemma bounded_fix_interpolationLengths_blocks:
  "list_all interpolationLength_bounded bs \<Longrightarrow> fix_interpolationLengths_blocks bs = (bs, [])"
  by (induction bs) (simp_all add: bounded_fix_interpolationLength_block)

lemma for_each_channelFormat_nothing:
  "(\<And>cf. cf \<in> set cfs \<Longrightarrow> body (audioBlockFormats cf) = (audioBlockFormats cf, [])) \<Longrightarrow>
     for_each_channelFormat body cfs = (cfs, [])"
  by (induction cfs) simp_all

lemma steady_scene_two_passes_nothing:
  assumes "steady_scene adm"
  shows "fix_blockFormat_durations adm = (adm, [])"
    and "fix_blockFormat_interpolationLengths adm = (adm, [])"
proof -
  have "for_each_channelFormat fix_durations_blocks (audioChannelFormats adm)
          = (audioChannelFormats adm, [])"
    using assms
    by (intro for_each_channelFormat_nothing contiguous_fix_durations_blocks)
       (simp add: steady_scene_def list_all_iff steady_def)
  then show "fix_blockFormat_durations adm = (adm, [])"
    by (simp add: fix_blockFormat_durations_def)
  have "for_each_channelFormat fix_interpolationLengths_blocks (audioChannelFormats adm)
          = (audioChannelFormats adm, [])"
    using assms
    by (intro for_each_channelFormat_nothing bounded_fix_interpolationLengths_blocks)
       (simp add: steady_scene_def list_all_iff steady_def)
  then show "fix_blockFormat_interpolationLengths adm = (adm, [])"
    by (simp add: fix_blockFormat_interpolationLengths_def)
qed

lemma settled_clamp_blockFormats:
  "(\<And>b. b \<in> set bs \<Longrightarrow> settled obj b) \<Longrightarrow> clamp_blockFormats obj bs = Done bs []"
  by (induction bs) (simp_all add: settled_def)

lemma channel_settled_clamp_channelFormat:
  assumes "channel_settled (obj, ci) adm"
  shows "clamp_channelFormat obj ci adm = Done adm []"
proof (cases "ci < length (audioChannelFormats adm)")
  case True
  with assms have "clamp_blockFormats obj (audioBlockFormats (audioChannelFormats adm ! ci))
      = Done (audioBlockFormats (audioChannelFormats adm ! ci)) []"
    by (intro settled_clamp_blockFormats) (simp add: channel_settled_def blockFormats_of_def)
  with True show ?thesis by (simp add: clamp_channelFormat_def)
next
  case False
  then show ?thesis by (simp add: clamp_channelFormat_def)
qed

text \<open>
  Claim C7, amended. If the document is well timed (non-negative durations,
  non-decreasing \<open>rtime\<close>s along each channel format) and the entry point returns on
  it, then running the entry point again on the result, with the same mapping from
  audioObjects to channel formats, returns as well, emits no warning and leaves every
  field as it is.
\<close>

theorem timings_second_run:
  assumes "well_timed adm"
    and "fix_blockFormat_timings select_pack_mapping adm = Done adm' ws"
  shows "fix_blockFormat_timings select_pack_mapping adm' = Done adm' []"
proof -
  obtain adm1 ws1 where p1: "fix_blockFormat_durations adm = (adm1, ws1)" by force
  obtain adm2 ws2 where p2: "fix_blockFormat_interpolationLengths adm1 = (adm2, ws2)" by force
  from assms(2) p1 p2 obtain ws3 where
    p3: "fix_blockFormat_times_for_audioObjects select_pack_mapping adm2 = Done adm' ws3"
    by (auto simp: fix_blockFormat_timings_def warned_Done_iff)
  note s2 = well_timed_steady_after_two_passes[OF assms(1) p1 p2]
  note s3 = fix_blockFormat_times_for_audioObjects_steady[OF p3 s2(1)]
  note q1 = steady_scene_two_passes_nothing[OF s3(1)]
  have "\<forall>sel \<in> set (selected_channelFormats select_pack_mapping (audioObjects adm')).
           channel_settled sel adm'"
    using fix_blockFormat_times_for_audioObjects_settles[OF p3] s3(2) by simp
  then have "for_each (selected_channelFormats select_pack_mapping (audioObjects adm'))
       (\<lambda>sel. clamp_channelFormat (fst sel) (snd sel)) adm' = Done adm' []"
    by (intro for_each_nothing channel_settled_clamp_channelFormat) simp
  then have q3: "fix_blockFormat_times_for_audioObjects select_pack_mapping adm' = Done adm' []"
    by (simp add: fix_blockFormat_times_for_audioObjects_flat)
  show ?thesis by (simp add: fix_blockFormat_timings_def q1 q3)
qed

theorem timings_second_run_witness:
  "well_timed delayed_scene
 \<and> fix_blockFormat_timings (\<lambda>audioObject. [[0]]) delayed_scene =
     Done delayed_scene_once
       [DurationChanged ''expanded'' ''A'' 4 6, DelayedRtime ''A'' ''AO_1'' 1]
 \<and> fix_blockFormat_timings (\<lambda>audioObject. [[0]]) delayed_scene_once =
     Done delayed_scene_once []"
proof -
  have w: "well_timed delayed_scene"
    by (simp add: delayed_scene_def well_timed_def nonneg_duration_def rtime_ordered_def)
  have h: "fix_blockFormat_timings (\<lambda>audioObject. [[0]]) delayed_scene =
     Done delayed_scene_once
       [DurationChanged ''expanded'' ''A'' 4 6, DelayedRtime ''A'' ''AO_1'' 1]"
    by (simp add: delayed_scene_def delayed_scene_once_def run_defs)
  from timings_second_run[OF w h] w h show ?thesis by simp
qed

end
